theory Spec2Isabelle
  imports Complex_Main "HOL-Library.Word" "HOL-Library.Log_Nat" "HOL-Library.Multiset"
begin

section \<open>Binary64 arithmetic, as far as the node uses it\<close>

text \<open>
  The node computes with C++ \<^verbatim>\<open>double\<close>. A double is either a finite number, one of the
  two infinities or a NaN. Finite values are kept as the real number they denote;
  \<open>Fin 0\<close> is \<open>+0.0\<close> and \<open>NegZero\<close> is \<open>-0.0\<close>. Every arithmetic operation computes the
  exact real result and rounds it to the nearest binary64 value, ties to even (the default
  rounding mode), with gradual underflow and overflow to infinity.
\<close>

datatype double = Fin real | NegZero | PInf | NInf | NaN

fun is_nan :: "double \<Rightarrow> bool" where
  "is_nan NaN = True"
| "is_nan _ = False"

fun is_inf :: "double \<Rightarrow> bool" where
  "is_inf PInf = True"
| "is_inf NInf = True"
| "is_inf _ = False"

text \<open>The sign bit (\<open>True\<close> is negative) and the real value of a finite double.\<close>

fun dsign :: "double \<Rightarrow> bool" where
  "dsign (Fin x) = (x < 0)"
| "dsign NegZero = True"
| "dsign PInf = False"
| "dsign NInf = True"
| "dsign NaN = False"

fun dval :: "double \<Rightarrow> real" where
  "dval (Fin x) = x"
| "dval _ = 0"

definition dzero :: "bool \<Rightarrow> double" where
  "dzero neg = (if neg then NegZero else Fin 0)"

definition dinf :: "bool \<Rightarrow> double" where
  "dinf neg = (if neg then NInf else PInf)"

definition pow2 :: "int \<Rightarrow> real" where
  "pow2 e = (if 0 \<le> e then 2 ^ nat e else 1 / 2 ^ nat (- e))"

text \<open>\<open>ilog2 x\<close> is the binary exponent of a positive real: \<open>2 ^ ilog2 x \<le> x < 2 ^ (ilog2 x + 1)\<close>.\<close>

definition ilog2 :: "real \<Rightarrow> int" where
  "ilog2 x = (if 1 \<le> x then bitlen \<lfloor>x\<rfloor> - 1 else - bitlen (\<lceil>1 / x\<rceil> - 1))"

definition round_even :: "real \<Rightarrow> int" where
  "round_even y =
     (let f = \<lfloor>y\<rfloor>; d = y - of_int f
      in if d < 1 / 2 then f else if 1 / 2 < d then f + 1 else if even f then f else f + 1)"

text \<open>
  Rounding a positive magnitude to 53 significant bits, the exponent bounded below by
  \<open>-1022\<close> (subnormal numbers share the spacing \<open>2 ^ -1074\<close>) and not bounded above.
\<close>

definition round_mag :: "real \<Rightarrow> real" where
  "round_mag x =
     (let q = max (ilog2 x) (- 1022) - 52
      in of_int (round_even (x / pow2 q)) * pow2 q)"

text \<open>
  \<open>dround neg r\<close> is the double nearest to the exact result \<open>r\<close>; \<open>neg\<close> is the sign an
  exact zero result takes.
\<close>

definition dround :: "bool \<Rightarrow> real \<Rightarrow> double" where
  "dround neg r =
     (if r = 0 then dzero neg
      else let m = round_mag \<bar>r\<bar>
           in if 2 ^ 1024 \<le> m then dinf (r < 0)
              else if m = 0 then dzero (r < 0)
              else Fin (if r < 0 then - m else m))"

text \<open>A finite double is a value that rounding leaves alone.\<close>

fun dvalid :: "double \<Rightarrow> bool" where
  "dvalid (Fin x) = (x = 0 \<or> dround False x = Fin x)"
| "dvalid _ = True"

text \<open>Division \<^verbatim>\<open>a / b\<close>.\<close>

definition ddiv :: "double \<Rightarrow> double \<Rightarrow> double" where
  "ddiv a b =
     (if is_nan a \<or> is_nan b then NaN
      else if is_inf a then (if is_inf b then NaN else dinf (dsign a \<noteq> dsign b))
      else if is_inf b then dzero (dsign a \<noteq> dsign b)
      else if dval b = 0 then (if dval a = 0 then NaN else dinf (dsign a \<noteq> dsign b))
      else dround (dsign a \<noteq> dsign b) (dval a / dval b))"

text \<open>Subtraction \<^verbatim>\<open>a - b\<close>. An exact zero difference is \<open>+0.0\<close> unless it is \<open>-0.0 - +0.0\<close>.\<close>

definition dsub :: "double \<Rightarrow> double \<Rightarrow> double" where
  "dsub a b =
     (if is_nan a \<or> is_nan b then NaN
      else if is_inf a then (if is_inf b \<and> dsign a = dsign b then NaN else a)
      else if is_inf b then dinf (\<not> dsign b)
      else dround (dsign a \<and> \<not> dsign b) (dval a - dval b))"

text \<open>Addition \<^verbatim>\<open>a + b\<close> and multiplication \<^verbatim>\<open>a * b\<close>, used by the clock conversion only.\<close>

definition dadd :: "double \<Rightarrow> double \<Rightarrow> double" where
  "dadd a b =
     (if is_nan a \<or> is_nan b then NaN
      else if is_inf a then (if is_inf b \<and> dsign a \<noteq> dsign b then NaN else a)
      else if is_inf b then b
      else dround (dsign a \<and> dsign b) (dval a + dval b))"

definition dmul :: "double \<Rightarrow> double \<Rightarrow> double" where
  "dmul a b =
     (if is_nan a \<or> is_nan b then NaN
      else if is_inf a then (if \<not> is_inf b \<and> dval b = 0 then NaN else dinf (dsign a \<noteq> dsign b))
      else if is_inf b then (if dval a = 0 then NaN else dinf (dsign a \<noteq> dsign b))
      else dround (dsign a \<noteq> dsign b) (dval a * dval b))"

text \<open>The comparison \<^verbatim>\<open>a > b\<close>: false as soon as one side is a NaN; the two zeros are equal.\<close>

definition dgt :: "double \<Rightarrow> double \<Rightarrow> bool" where
  "dgt a b =
     (if is_nan a \<or> is_nan b then False
      else if a = PInf then b \<noteq> PInf
      else if b = NInf then a \<noteq> NInf
      else if a = NInf \<or> b = PInf then False
      else dval b < dval a)"

text \<open>The casts \<^verbatim>\<open>(double)\<close> of an \<^verbatim>\<open>int32_t\<close> and of a \<^verbatim>\<open>uint32_t\<close>; both are exact.\<close>

definition of_int32 :: "32 word \<Rightarrow> double" where
  "of_int32 w = Fin (real_of_int (sint w))"

definition of_uint32 :: "32 word \<Rightarrow> double" where
  "of_uint32 w = Fin (real (unat w))"

section \<open>Messages\<close>

text \<open>
  \<^verbatim>\<open>ros::Time\<close>: seconds and nanoseconds, both \<^verbatim>\<open>uint32_t\<close>. The conversion \<^verbatim>\<open>toSec()\<close>
  belongs to the ROS client library; the node's functions take it as the parameter
  \<open>toSec\<close>. \<open>ros_toSec\<close> is the library's \<^verbatim>\<open>(double)sec + 1e-9 * (double)nsec\<close>.
\<close>

record rostime =
  sec :: "32 word"
  nsec :: "32 word"

definition ros_toSec :: "rostime \<Rightarrow> double" where
  "ros_toSec t = dadd (of_uint32 (sec t)) (dmul (dround False (1 / 10 ^ 9)) (of_uint32 (nsec t)))"

text \<open>
  \<^verbatim>\<open>geometry_msgs::TwistWithCovarianceStamped\<close>. The path \<^verbatim>\<open>m.twist.twist.linear.x\<close> of
  the source is \<open>v_x (linear (tw (twc m)))\<close> here, \<^verbatim>\<open>m.twist.covariance\<close> is
  \<open>covariance (twc m)\<close> (36 entries, row-major 6 by 6), and \<^verbatim>\<open>m.header.seq\<close> is
  \<open>seq (header m)\<close>.
\<close>

record std_header =
  seq :: "32 word"
  stamp :: rostime
  frame_id :: string

record vector3 =
  v_x :: double
  v_y :: double
  v_z :: double

record twist_msg =
  linear :: vector3
  angular :: vector3

record twist_with_covariance =
  tw :: twist_msg
  covariance :: "double list"

record twist_stamped =
  header :: std_header
  twc :: twist_with_covariance

text \<open>
  Modelled from the spec: the declaration of the message \<^verbatim>\<open>tas_odometry::Encoder\<close> is not
  among the sources; the spec gives \<^verbatim>\<open>encoder_ticks: int32\<close> and
  \<^verbatim>\<open>duration: uint32\<close> (microseconds).
\<close>

record encoder =
  encoder_ticks :: "32 word"
  duration :: "32 word"

text \<open>A default-constructed message: every number zero, every string empty.\<close>

definition vector3_zero :: vector3 where
  "vector3_zero = \<lparr>v_x = Fin 0, v_y = Fin 0, v_z = Fin 0\<rparr>"

definition twist_default :: twist_stamped where
  "twist_default =
     \<lparr>header = \<lparr>seq = 0, stamp = \<lparr>sec = 0, nsec = 0\<rparr>, frame_id = []\<rparr>,
      twc = \<lparr>tw = \<lparr>linear = vector3_zero, angular = vector3_zero\<rparr>,
             covariance = replicate 36 (Fin 0)\<rparr>\<rparr>"

text \<open>The field assignments the source makes on the global \<^verbatim>\<open>twist\<close>.\<close>

definition set_stamp :: "rostime \<Rightarrow> twist_stamped \<Rightarrow> twist_stamped" where
  "set_stamp t m = m\<lparr>header := (header m)\<lparr>stamp := t\<rparr>\<rparr>"

definition inc_seq :: "twist_stamped \<Rightarrow> twist_stamped" where
  "inc_seq m = m\<lparr>header := (header m)\<lparr>seq := seq (header m) + 1\<rparr>\<rparr>"

definition set_linear_x :: "double \<Rightarrow> twist_stamped \<Rightarrow> twist_stamped" where
  "set_linear_x v m =
     m\<lparr>twc := (twc m)\<lparr>tw := (tw (twc m))\<lparr>linear := (linear (tw (twc m)))\<lparr>v_x := v\<rparr>\<rparr>\<rparr>\<rparr>"

definition set_covariance :: "double list \<Rightarrow> twist_stamped \<Rightarrow> twist_stamped" where
  "set_covariance c m = m\<lparr>twc := (twc m)\<lparr>covariance := c\<rparr>\<rparr>"

definition linear_x :: "twist_stamped \<Rightarrow> double" where
  "linear_x m = v_x (linear (tw (twc m)))"

section \<open>The node\<close>

text \<open>
  The globals of \<^verbatim>\<open>motor_odometry.cpp\<close>. The two publishers are the lists of messages
  published so far on \<^verbatim>\<open>motor_odom\<close> and \<^verbatim>\<open>motor_encoder_abs\<close>, oldest first. The global
  \<^verbatim>\<open>frame_id\<close> is \<open>frame_id_param\<close>. \<^verbatim>\<open>encoder_abs\<close> is an \<^verbatim>\<open>int32_t\<close>: the word
  addition is the two's complement addition of the target machines.
\<close>

record node =
  twist :: twist_stamped
  encoder_abs :: "32 word"
  frame_id_param :: string
  ticks_per_meter :: double
  uncertainty_fixed :: double
  deadline_timeout :: double
  last_publish_time :: double
  pose_publisher :: "twist_stamped list"
  encoder_publisher :: "32 word list"

definition node_static :: node where
  "node_static =
     \<lparr>twist = twist_default, encoder_abs = 0, frame_id_param = [],
      ticks_per_meter = Fin 0, uncertainty_fixed = Fin 0, deadline_timeout = Fin 0,
      last_publish_time = Fin 0, pose_publisher = [], encoder_publisher = []\<rparr>"

text \<open>
  \<^verbatim>\<open>encoder_callback\<close>, one delivered message. \<open>now\<close> is what \<^verbatim>\<open>ros::Time::now()\<close>
  returns in it.
\<close>

definition encoder_callback :: "(rostime \<Rightarrow> double) \<Rightarrow> rostime \<Rightarrow> encoder \<Rightarrow> node \<Rightarrow> node" where
  "encoder_callback toSec now encoder_data s =
     (let hdr = inc_seq (set_stamp now (twist s));
          time_now = toSec (stamp (header hdr));
          abs = encoder_abs s + encoder_ticks encoder_data;
          change_meter = ddiv (of_int32 (encoder_ticks encoder_data)) (ticks_per_meter s);
          change_time = ddiv (of_uint32 (duration encoder_data)) (Fin 1000000);
          vel = ddiv change_meter change_time;
          msg = set_linear_x vel hdr
      in s\<lparr>twist := msg,
            last_publish_time := time_now,
            encoder_abs := abs,
            encoder_publisher := encoder_publisher s @ [abs],
            pose_publisher := pose_publisher s @ [msg]\<rparr>)"

text \<open>
  The parameter server's entries under the node's private namespace. \<^verbatim>\<open>n.param(name, var, d)\<close>
  stores the entry in \<^verbatim>\<open>var\<close> when there is one and the default \<open>d\<close> otherwise.
\<close>

record params =
  param_ticks_per_meter :: "double option"
  param_frame_id :: "string option"
  param_uncertainty_fixed :: "double option"
  param_deadline_timeout :: "double option"

definition param :: "'a option \<Rightarrow> 'a \<Rightarrow> 'a" where
  "param entry d = (case entry of Some v \<Rightarrow> v | None \<Rightarrow> d)"

text \<open>The loop \<^verbatim>\<open>for (int i=0; i<36; i+=7) elems[i] = 999\<close>.\<close>

function cov_loop :: "nat \<Rightarrow> double list \<Rightarrow> double list" where
  "cov_loop i elems = (if i < 36 then cov_loop (i + 7) (elems[i := Fin 999]) else elems)"
  by pat_completeness auto
termination
  by (relation "measure (\<lambda>(i, elems). 36 - i)") auto

declare cov_loop.simps [simp del]

text \<open>
  \<^verbatim>\<open>main\<close> up to the loop: the parameters, the header of the message, its covariance.
  The literals \<^verbatim>\<open>1e-3\<close> and \<^verbatim>\<open>0.1\<close> are the doubles nearest to them.
\<close>

definition main_init :: "params \<Rightarrow> node" where
  "main_init ps =
     (let s = node_static
            \<lparr>ticks_per_meter := param (param_ticks_per_meter ps) (Fin 310),
             frame_id_param := param (param_frame_id ps) ''base_link'',
             uncertainty_fixed := param (param_uncertainty_fixed ps) (dround False (1 / 1000)),
             deadline_timeout := param (param_deadline_timeout ps) (dround False (1 / 10))\<rparr>;
          msg = (twist s)\<lparr>header := (header (twist s))\<lparr>seq := 0, frame_id := frame_id_param s\<rparr>\<rparr>;
          assigned = map (\<lambda>_. Fin 0) (covariance (twc msg));
          diagonal = cov_loop 0 assigned;
          elems = diagonal[0 := uncertainty_fixed s]
      in s\<lparr>twist := set_covariance elems msg\<rparr>)"

text \<open>
  The body of the \<^verbatim>\<open>if\<close> that follows \<^verbatim>\<open>ros::spinOnce()\<close>. \<open>now\<close> is the clock read for
  \<^verbatim>\<open>time_now\<close>, \<open>now'\<close> the second read, for the stamp.
\<close>

definition watchdog :: "(rostime \<Rightarrow> double) \<Rightarrow> rostime \<Rightarrow> rostime \<Rightarrow> node \<Rightarrow> node" where
  "watchdog toSec now now' s =
     (let time_now = toSec now
      in if dgt (dsub time_now (last_publish_time s)) (deadline_timeout s)
         then let msg = set_linear_x (Fin 0) (inc_seq (set_stamp now' (twist s)))
              in s\<lparr>last_publish_time := time_now,
                    twist := msg,
                    pose_publisher := pose_publisher s @ [msg]\<rparr>
         else s)"

text \<open>
  One turn of \<^verbatim>\<open>while (ros::ok())\<close>: \<^verbatim>\<open>ros::spinOnce()\<close> runs the callback on every queued
  message, each with its own clock reading, then the deadline is checked. The run of the
  node is the list of its turns; it ends when \<^verbatim>\<open>ros::ok()\<close> turns false, and \<^verbatim>\<open>main\<close>
  returns 0.
\<close>

record turn =
  queued :: "(rostime \<times> encoder) list"
  check_now :: rostime
  stamp_now :: rostime

definition spinOnce :: "(rostime \<Rightarrow> double) \<Rightarrow> (rostime \<times> encoder) list \<Rightarrow> node \<Rightarrow> node" where
  "spinOnce toSec msgs s = fold (\<lambda>(now, encoder_data). encoder_callback toSec now encoder_data) msgs s"

definition loop_body :: "(rostime \<Rightarrow> double) \<Rightarrow> turn \<Rightarrow> node \<Rightarrow> node" where
  "loop_body toSec t s =
     watchdog toSec (check_now t) (stamp_now t) (spinOnce toSec (queued t) s)"

definition main_loop :: "(rostime \<Rightarrow> double) \<Rightarrow> turn list \<Rightarrow> node \<Rightarrow> node" where
  "main_loop toSec turns s = fold (loop_body toSec) turns s"

definition main :: "(rostime \<Rightarrow> double) \<Rightarrow> params \<Rightarrow> turn list \<Rightarrow> int \<times> node" where
  "main toSec ps turns = (0, main_loop toSec turns (main_init ps))"

text \<open>The encoder messages of a run, in the order of their delivery.\<close>

definition delivered :: "turn list \<Rightarrow> encoder list" where
  "delivered turns = concat (map (\<lambda>t. map snd (queued t)) turns)"

text \<open>No parameter set: every default applies.\<close>

definition no_params :: params where
  "no_params =
     \<lparr>param_ticks_per_meter = None, param_frame_id = None,
      param_uncertainty_fixed = None, param_deadline_timeout = None\<rparr>"

text \<open>The running sums of a list of tick counts, in 32-bit arithmetic, from the start value \<open>a\<close>.\<close>

fun running :: "32 word \<Rightarrow> 32 word list \<Rightarrow> 32 word list" where
  "running a [] = []"
| "running a (x # xs) = (a + x) # running (a + x) xs"

section \<open>Evaluating the arithmetic\<close>

lemma bitlen_rec: "bitlen a = (if 0 < a then bitlen (a div 2) + 1 else 0)"
  by (simp add: bitlen_def compute_floorlog[of 2 "nat a"] nat_div_distrib)

lemma bitlen_1: "bitlen 1 = 1"
  by (subst bitlen_rec) simp

lemma bitlen_Bit0: "bitlen (numeral (Num.Bit0 k)) = bitlen (numeral k) + 1"
  by (subst bitlen_rec) simp

lemma bitlen_Bit1: "bitlen (numeral (Num.Bit1 k)) = bitlen (numeral k) + 1"
  by (subst bitlen_rec) simp

lemmas dbl_eval =
  ddiv_def dsub_def dadd_def dmul_def dgt_def dround_def round_mag_def ilog2_def
  pow2_def round_even_def Let_def dzero_def dinf_def bitlen_1 bitlen_Bit0 bitlen_Bit1
  of_int32_def of_uint32_def

section \<open>Invariants of a run\<close>

lemma spinOnce_invariant:
  assumes "P s" and "\<And>now e s. P s \<Longrightarrow> P (encoder_callback toSec now e s)"
  shows "P (spinOnce toSec msgs s)"
  using assms(1) unfolding spinOnce_def
  by (induction msgs arbitrary: s) (auto intro: assms(2))

lemma main_loop_invariant:
  assumes "P s"
    and "\<And>now e s. P s \<Longrightarrow> P (encoder_callback toSec now e s)"
    and "\<And>now now' s. P s \<Longrightarrow> P (watchdog toSec now now' s)"
  shows "P (main_loop toSec turns s)"
  using assms(1) unfolding main_loop_def
proof (induction turns arbitrary: s)
  case Nil
  then show ?case by simp
next
  case (Cons t turns)
  have "P (spinOnce toSec (queued t) s)"
    using Cons.prems assms(2) by (rule spinOnce_invariant)
  then have "P (loop_body toSec t s)"
    unfolding loop_body_def by (rule assms(3))
  then show ?case
    using Cons.IH by simp
qed

section \<open>Velocity of one event\<close>

lemma pose_publisher_encoder_callback:
  "pose_publisher (encoder_callback toSec now ev s) =
     pose_publisher s @ [twist (encoder_callback toSec now ev s)]"
  by (simp add: encoder_callback_def Let_def)

lemma linear_x_encoder_callback:
  "linear_x (twist (encoder_callback toSec now ev s)) =
     ddiv (ddiv (of_int32 (encoder_ticks ev)) (ticks_per_meter s))
          (ddiv (of_uint32 (duration ev)) (Fin 1000000))"
  by (simp add: encoder_callback_def Let_def linear_x_def set_linear_x_def)

lemma last_pose_publisher_encoder_callback:
  "last (pose_publisher (encoder_callback toSec now ev s)) =
     twist (encoder_callback toSec now ev s)"
  by (simp add: pose_publisher_encoder_callback)

section \<open>Rounding error\<close>

lemma pow2_pos: "0 < pow2 e"
  by (simp add: pow2_def)

lemma pow2_powi: "pow2 e = 2 powi e"
  by (simp add: pow2_def power_int_def inverse_eq_divide power_one_over)

lemma pow2_diff: "pow2 (e - 52) = pow2 e / 2 ^ 52"
  by (simp add: pow2_powi power_int_diff)

lemma round_even_error: "\<bar>real_of_int (round_even y) - y\<bar> \<le> 1 / 2"
  unfolding round_even_def Let_def by (auto simp: abs_le_iff)

lemma ilog2_lower:
  assumes "0 < x"
  shows "pow2 (ilog2 x) \<le> x"
proof (cases "1 \<le> x")
  case True
  then have pos: "0 < \<lfloor>x\<rfloor>" by linarith
  then have k: "1 \<le> bitlen \<lfloor>x\<rfloor>"
    by (simp add: bitlen_alt_def)
  have "2 ^ nat (bitlen \<lfloor>x\<rfloor> - 1) \<le> \<lfloor>x\<rfloor>"
    using bitlen_bounds [OF pos] by simp
  then have "(2::real) ^ nat (bitlen \<lfloor>x\<rfloor> - 1) \<le> of_int \<lfloor>x\<rfloor>"
    by (metis of_int_le_iff of_int_numeral of_int_power)
  also have "\<dots> \<le> x" by (rule of_int_floor_le)
  finally have "(2::real) ^ nat (bitlen \<lfloor>x\<rfloor> - 1) \<le> x" .
  then show ?thesis
    using True k by (simp add: ilog2_def pow2_def)
next
  case False
  define n where "n = \<lceil>1 / x\<rceil> - 1"
  from False assms have "1 < 1 / x" by simp
  then have n: "0 < n" unfolding n_def by linarith
  then have k: "1 \<le> bitlen n"
    by (simp add: bitlen_alt_def)
  have "n < 2 ^ nat (bitlen n)"
    using bitlen_bounds [OF n] by simp
  then have "n + 1 \<le> 2 ^ nat (bitlen n)" by simp
  then have "real_of_int (n + 1) \<le> 2 ^ nat (bitlen n)"
    by (metis of_int_le_iff of_int_numeral of_int_power)
  moreover have "1 / x \<le> real_of_int (n + 1)"
    unfolding n_def by simp
  ultimately have "1 / x \<le> 2 ^ nat (bitlen n)" by linarith
  then have "1 / 2 ^ nat (bitlen n) \<le> x"
    using assms by (simp add: field_simps)
  then show ?thesis
    using False k by (simp add: ilog2_def pow2_def n_def)
qed

lemma round_mag_error:
  assumes "pow2 (- 1022) \<le> x"
  shows "\<bar>round_mag x - x\<bar> \<le> x / 2 ^ 53"
proof -
  have x: "0 < x" using assms pow2_pos [of "- 1022"] by linarith
  define q where "q = max (ilog2 x) (- 1022) - 52"
  have q: "pow2 q \<le> x / 2 ^ 52"
  proof (cases "- 1022 \<le> ilog2 x")
    case True
    then have "q = ilog2 x - 52" by (simp add: q_def)
    then show ?thesis
      using ilog2_lower [OF x] by (simp add: pow2_diff divide_right_mono)
  next
    case False
    then have "q = - 1022 - 52" by (simp add: q_def)
    then show ?thesis
      using assms by (simp only: pow2_diff) (simp add: divide_right_mono)
  qed
  have "round_mag x - x = (real_of_int (round_even (x / pow2 q)) - x / pow2 q) * pow2 q"
    using pow2_pos [of q] by (simp add: round_mag_def q_def Let_def field_simps)
  then have "\<bar>round_mag x - x\<bar> = \<bar>real_of_int (round_even (x / pow2 q)) - x / pow2 q\<bar> * pow2 q"
    using pow2_pos [of q] by (simp add: abs_mult)
  also have "\<dots> \<le> (1 / 2) * pow2 q"
    using round_even_error [of "x / pow2 q"] pow2_pos [of q] by (intro mult_right_mono) simp_all
  also have "\<dots> \<le> (1 / 2) * (x / 2 ^ 52)"
    using q by simp
  finally show ?thesis by simp
qed

lemma quotient_error:
  fixes a A b B c u :: real
  assumes u: "0 \<le> u" "u \<le> 1 / 5"
    and a: "\<bar>a - A\<bar> \<le> u * \<bar>A\<bar>"
    and B: "0 < B"
    and b: "\<bar>b - B\<bar> \<le> u * B"
    and c: "\<bar>c - a / b\<bar> \<le> u * \<bar>a / b\<bar>"
  shows "\<bar>c - A / B\<bar> \<le> 4 * u * \<bar>A / B\<bar>"
proof -
  have lower: "(1 - u) * B \<le> b"
    using b by (simp add: abs_le_iff algebra_simps)
  have "0 < (1 - u) * B"
    using u B by simp
  with lower have b_pos: "0 < b" by linarith
  define K where "K = \<bar>A\<bar> / b"
  have K: "0 \<le> K" using b_pos by (simp add: K_def)
  have "a / b - A / B = ((a - A) * B + A * (B - b)) / (b * B)"
    using b_pos B by (simp add: field_simps)
  then have "\<bar>a / b - A / B\<bar> = \<bar>(a - A) * B + A * (B - b)\<bar> / (b * B)"
    using b_pos B by (simp add: abs_mult)
  also have "\<dots> \<le> (u * \<bar>A\<bar> * B + \<bar>A\<bar> * (u * B)) / (b * B)"
  proof (rule divide_right_mono)
    have "\<bar>(a - A) * B + A * (B - b)\<bar> \<le> \<bar>a - A\<bar> * B + \<bar>A\<bar> * \<bar>B - b\<bar>"
      using B by (metis abs_mult abs_of_pos abs_triangle_ineq)
    also have "\<dots> \<le> u * \<bar>A\<bar> * B + \<bar>A\<bar> * (u * B)"
      using a b B by (intro add_mono mult_right_mono mult_left_mono) (simp_all add: abs_minus_commute)
    finally show "\<bar>(a - A) * B + A * (B - b)\<bar> \<le> u * \<bar>A\<bar> * B + \<bar>A\<bar> * (u * B)" .
    show "0 \<le> b * B" using b_pos B by simp
  qed
  also have "\<dots> = 2 * u * K"
    using b_pos B by (simp add: K_def field_simps)
  finally have e1: "\<bar>a / b - A / B\<bar> \<le> 2 * u * K" .
  have "\<bar>a\<bar> \<le> \<bar>A\<bar> + u * \<bar>A\<bar>"
    using a by linarith
  then have "\<bar>a\<bar> / b \<le> (\<bar>A\<bar> + u * \<bar>A\<bar>) / b"
    using b_pos by (simp add: divide_right_mono)
  then have e2: "\<bar>a / b\<bar> \<le> (1 + u) * K"
    using b_pos by (simp add: K_def algebra_simps add_divide_distrib)
  have "u * \<bar>a / b\<bar> \<le> u * ((1 + u) * K)"
    using e2 u by (intro mult_left_mono) simp_all
  with c have "\<bar>c - a / b\<bar> \<le> u * ((1 + u) * K)" by linarith
  with e1 have "\<bar>c - A / B\<bar> \<le> u * ((1 + u) * K) + 2 * u * K" by linarith
  then have e3: "\<bar>c - A / B\<bar> \<le> (3 * u + u * u) * K"
    by (simp add: algebra_simps)
  have "K * ((1 - u) * B) \<le> K * b"
    using lower K by (intro mult_left_mono)
  then have "K * (1 - u) * B \<le> \<bar>A\<bar>"
    using b_pos by (simp add: K_def mult.assoc)
  then have e4: "K * (1 - u) \<le> \<bar>A\<bar> / B"
    using B by (simp add: pos_le_divide_eq)
  have "3 * u + u * u \<le> 4 * u * (1 - u)"
  proof -
    have "(5 * u) * u \<le> 1 * u"
      using u by (intro mult_right_mono) simp_all
    then show ?thesis by (simp add: algebra_simps)
  qed
  then have "(3 * u + u * u) * K \<le> 4 * u * (1 - u) * K"
    using K by (intro mult_right_mono)
  also have "\<dots> = 4 * u * (K * (1 - u))" by simp
  also have "\<dots> \<le> 4 * u * (\<bar>A\<bar> / B)"
    using e4 u by (intro mult_left_mono) simp_all
  finally have "(3 * u + u * u) * K \<le> 4 * u * (\<bar>A\<bar> / B)" .
  with e3 show ?thesis
    using B by simp
qed

lemma dround_normal:
  assumes lo: "pow2 (- 1022) \<le> \<bar>x\<bar>" and hi: "\<bar>x\<bar> \<le> 2 ^ 1000"
  shows "\<not> is_nan (dround neg x) \<and> \<not> is_inf (dround neg x) \<and>
         \<bar>dval (dround neg x) - x\<bar> \<le> \<bar>x\<bar> / 2 ^ 53"
proof -
  define m where "m = round_mag \<bar>x\<bar>"
  have x: "0 < \<bar>x\<bar>" using lo pow2_pos [of "- 1022"] by linarith
  have err: "\<bar>m - \<bar>x\<bar>\<bar> \<le> \<bar>x\<bar> / 2 ^ 53"
    unfolding m_def by (rule round_mag_error [OF lo])
  have "\<bar>x\<bar> / 2 ^ 53 \<le> \<bar>x\<bar> / 2"
    using x by (intro divide_left_mono) simp_all
  with err have "\<bar>m - \<bar>x\<bar>\<bar> \<le> \<bar>x\<bar> / 2" by linarith
  then have m: "\<bar>x\<bar> / 2 \<le> m" "m \<le> 2 * \<bar>x\<bar>"
    by linarith+
  have "2 * \<bar>x\<bar> \<le> 2 * 2 ^ 1000" using hi by simp
  also have "\<dots> < (2::real) ^ 1024" by simp
  finally have small: "\<not> 2 ^ 1024 \<le> m" using m(2) by linarith
  have pos: "m \<noteq> 0" using m(1) x by linarith
  have eq: "dround neg x = Fin (if x < 0 then - m else m)"
    using x small pos by (simp add: dround_def Let_def m_def)
  have "\<bar>(if x < 0 then - m else m) - x\<bar> = \<bar>m - \<bar>x\<bar>\<bar>"
    by (cases "x < 0") (simp_all add: abs_if)
  with err show ?thesis
    by (simp add: eq)
qed

lemma dround_zero:
  "\<not> is_nan (dround neg 0) \<and> \<not> is_inf (dround neg 0) \<and> dval (dround neg 0) = 0"
  by (simp add: dround_def dzero_def)

lemma ddiv_finite:
  assumes "\<not> is_nan a" "\<not> is_inf a" "\<not> is_nan b" "\<not> is_inf b" "dval b \<noteq> 0"
  shows "ddiv a b = dround (dsign a \<noteq> dsign b) (dval a / dval b)"
  using assms by (simp add: ddiv_def)

lemma quotient_bounds:
  fixes x y :: real
  assumes "0 < lo" "lo \<le> \<bar>x\<bar>" "\<bar>x\<bar> \<le> hi" "0 < lo'" "lo' \<le> y" "y \<le> hi'"
  shows "lo / hi' \<le> \<bar>x / y\<bar>" "\<bar>x / y\<bar> \<le> hi / lo'"
proof -
  have y: "0 < y" using assms by linarith
  have "lo / hi' \<le> \<bar>x\<bar> / y"
    using assms y by (intro frac_le) simp_all
  then show "lo / hi' \<le> \<bar>x / y\<bar>" using y by simp
  have "\<bar>x\<bar> / y \<le> hi / lo'"
    using assms by (intro frac_le) simp_all
  then show "\<bar>x / y\<bar> \<le> hi / lo'" using y by simp
qed

lemma rounded_bounds:
  fixes r x :: real
  assumes "\<bar>r - x\<bar> \<le> \<bar>x\<bar> / 2 ^ 53"
  shows "\<bar>x\<bar> / 2 \<le> \<bar>r\<bar>" "\<bar>r\<bar> \<le> 2 * \<bar>x\<bar>"
proof -
  have "\<bar>x\<bar> / 2 ^ 53 \<le> \<bar>x\<bar> / 2"
    by (intro divide_left_mono) simp_all
  with assms have "\<bar>r - x\<bar> \<le> \<bar>x\<bar> / 2" by linarith
  then show "\<bar>x\<bar> / 2 \<le> \<bar>r\<bar>" "\<bar>r\<bar> \<le> 2 * \<bar>x\<bar>" by linarith+
qed

lemma velocity_error:
  fixes ticks dur :: "32 word" and p :: real
  assumes p: "1 / 2 ^ 64 \<le> \<bar>p\<bar>" "\<bar>p\<bar> \<le> 2 ^ 64" and dur: "dur \<noteq> 0"
  defines "Q \<equiv> (real_of_int (sint ticks) / p) / (real (unat dur) / 1000000)"
    and "v \<equiv> ddiv (ddiv (of_int32 ticks) (Fin p)) (ddiv (of_uint32 dur) (Fin 1000000))"
  shows "\<not> is_nan v \<and> \<not> is_inf v \<and> \<bar>dval v - Q\<bar> \<le> \<bar>Q\<bar> / 2 ^ 51"
proof -
  define t where "t = real_of_int (sint ticks)"
  define d where "d = real (unat dur)"
  define A where "A = t / p"
  define B where "B = d / 1000000"
  define bd where "bd = ddiv (of_uint32 dur) (Fin 1000000)"
  define ad where "ad = ddiv (of_int32 ticks) (Fin p)"
  have p0: "p \<noteq> 0" using p(1) by auto
  have "unat dur \<noteq> 0" using dur by (simp add: unat_eq_0)
  then have "1 \<le> unat dur" by linarith
  then have d1: "1 \<le> d" unfolding d_def by linarith
  have "unat dur < 4294967296" using unsigned_less [of dur, where ?'a = nat] by simp
  then have "d \<le> 4294967296" unfolding d_def by linarith
  then have d2: "d \<le> 2 ^ 32" by simp
  have B1: "1 / 1000000 \<le> B" using d1 by (simp add: B_def)
  have B2: "B \<le> 2 ^ 13" using d2 by (simp add: B_def)
  have Bpos: "0 < B" using B1 by linarith
  have bd_eq: "bd = dround False B"
    using d1 by (simp add: bd_def of_uint32_def ddiv_def B_def d_def)
  have "pow2 (- 1022) \<le> \<bar>B\<bar>" "\<bar>B\<bar> \<le> 2 ^ 1000"
    using B1 B2 by (simp_all add: pow2_def)
  from dround_normal [OF this, of False]
  have bd: "\<not> is_nan bd" "\<not> is_inf bd" "\<bar>dval bd - B\<bar> \<le> \<bar>B\<bar> / 2 ^ 53"
    by (simp_all add: bd_eq)
  have "\<bar>B\<bar> / 2 ^ 53 \<le> \<bar>B\<bar> / 2"
    by (intro divide_left_mono) simp_all
  with bd(3) Bpos have "\<bar>dval bd - B\<bar> \<le> B / 2" by linarith
  then have b: "B / 2 \<le> dval bd" "dval bd \<le> 2 * B"
    by linarith+
  have bpos: "0 < dval bd" using b(1) Bpos by linarith
  have ad_eq: "ad = dround (dsign (of_int32 ticks) \<noteq> dsign (Fin p)) A"
    using p0 by (simp add: ad_def of_int32_def ddiv_def A_def t_def)
  have v_eq: "v = ddiv ad bd" and Q_eq: "Q = A / B"
    by (simp_all add: v_def Q_def ad_def bd_def A_def B_def t_def d_def)
  show ?thesis
  proof (cases "t = 0")
    case True
    then have A0: "A = 0" by (simp add: A_def)
    have ad: "\<not> is_nan ad" "\<not> is_inf ad" "dval ad = 0"
      using dround_zero by (simp_all add: ad_eq A0)
    have "v = dround (dsign ad \<noteq> dsign bd) 0"
      unfolding v_eq using ddiv_finite [OF ad(1,2) bd(1,2)] bpos ad(3) by simp
    then show ?thesis
      using dround_zero by (simp add: Q_eq A0)
  next
    case False
    then have "sint ticks \<noteq> 0" unfolding t_def by (metis of_int_0)
    then have "1 \<le> \<bar>sint ticks\<bar>" by linarith
    then have t1: "1 \<le> \<bar>t\<bar>"
      unfolding t_def by (metis of_int_1_le_iff of_int_abs)
    have "\<bar>sint ticks\<bar> \<le> 2 ^ 31"
      using sint_ge [of ticks] sint_lt [of ticks] by simp
    then have t2: "\<bar>t\<bar> \<le> 2 ^ 31"
      unfolding t_def by (metis of_int_abs of_int_le_iff of_int_numeral of_int_power)
    have ppos: "0 < \<bar>p\<bar>" using p0 by simp
    have A1: "1 / 2 ^ 64 \<le> \<bar>A\<bar>"
    proof -
      have "1 / 2 ^ 64 \<le> \<bar>t\<bar> / \<bar>p\<bar>"
        using t1 p(2) ppos by (intro frac_le) simp_all
      then show ?thesis by (simp add: A_def)
    qed
    have A2: "\<bar>A\<bar> \<le> 2 ^ 95"
    proof -
      have "\<bar>t\<bar> / \<bar>p\<bar> \<le> 2 ^ 31 / (1 / 2 ^ 64)"
        using t2 p(1) by (intro frac_le) simp_all
      then show ?thesis by (simp add: A_def)
    qed
    have "pow2 (- 1022) \<le> \<bar>A\<bar>" "\<bar>A\<bar> \<le> 2 ^ 1000"
      using A1 A2 by (simp_all add: pow2_def)
    from dround_normal [OF this]
    have ad: "\<not> is_nan ad" "\<not> is_inf ad" "\<bar>dval ad - A\<bar> \<le> \<bar>A\<bar> / 2 ^ 53"
      by (simp_all add: ad_eq)
    from rounded_bounds [OF ad(3)] A1 A2
    have a: "1 / 2 ^ 65 \<le> \<bar>dval ad\<bar>" "\<bar>dval ad\<bar> \<le> 2 ^ 96"
      by simp_all
    have b': "1 / 2 ^ 21 \<le> dval bd" "dval bd \<le> 2 ^ 14"
      using b B1 B2 by simp_all
    have range: "(1 / 2 ^ 65) / 2 ^ 14 \<le> \<bar>dval ad / dval bd\<bar>"
        "\<bar>dval ad / dval bd\<bar> \<le> 2 ^ 96 / (1 / 2 ^ 21)"
      using quotient_bounds [OF _ a _ b'] by simp_all
    have "pow2 (- 1022) \<le> (1 / 2 ^ 65) / 2 ^ 14"
      by (simp add: pow2_def)
    then have lo: "pow2 (- 1022) \<le> \<bar>dval ad / dval bd\<bar>"
      using range(1) by (rule order_trans)
    have "2 ^ 96 / (1 / 2 ^ 21) \<le> (2::real) ^ 1000"
      by simp
    with range(2) have hi: "\<bar>dval ad / dval bd\<bar> \<le> 2 ^ 1000"
      by (rule order_trans)
    from dround_normal [OF lo hi]
    have c: "\<not> is_nan v" "\<not> is_inf v"
      "\<bar>dval v - dval ad / dval bd\<bar> \<le> \<bar>dval ad / dval bd\<bar> / 2 ^ 53"
      unfolding v_eq using ddiv_finite [OF ad(1,2) bd(1,2)] bpos by simp_all
    have "\<bar>dval v - A / B\<bar> \<le> 4 * (1 / 2 ^ 53) * \<bar>A / B\<bar>"
      by (rule quotient_error [where a = "dval ad" and b = "dval bd"])
        (use ad(3) bd(3) c(3) Bpos in simp_all)
    then show ?thesis
      using c(1,2) by (simp add: Q_eq)
  qed
qed

text \<open>
  Claim C1. An encoder event with a duration other than zero appends one estimate to the
  velocity topic, and its \<^verbatim>\<open>linear.x\<close> is the quotient, in binary64 arithmetic, of
  \<^verbatim>\<open>encoder_ticks / ticks_per_meter\<close> by \<^verbatim>\<open>duration / 1e6\<close>. When \<^verbatim>\<open>ticks_per_meter\<close> is a
  finite number \<open>p\<close> of magnitude between \<open>2 ^ -64\<close> and \<open>2 ^ 64\<close>, the published value is
  finite and differs from the real quotient \<open>(ticks / p) / (duration / 1000000)\<close> by at
  most the fraction \<open>2 ^ -51\<close> of it. With 310 ticks per meter, 310 ticks in 1000000
  microseconds give exactly 1.0, -155 ticks in 500000 microseconds exactly -1.0, 620 ticks
  in 1000000 microseconds exactly 2.0, and 1 tick in 3 microseconds the double
  1075.268817204301.
\<close>

theorem encoder_event_velocity:
  "(duration ev \<noteq> 0 \<longrightarrow>
      pose_publisher (encoder_callback toSec now ev s) =
        pose_publisher s @ [twist (encoder_callback toSec now ev s)] \<and>
      linear_x (twist (encoder_callback toSec now ev s)) =
        ddiv (ddiv (of_int32 (encoder_ticks ev)) (ticks_per_meter s))
             (ddiv (of_uint32 (duration ev)) (Fin 1000000))) \<and>
   (duration ev \<noteq> 0 \<and> ticks_per_meter s = Fin p \<and> 1 / 2 ^ 64 \<le> \<bar>p\<bar> \<and> \<bar>p\<bar> \<le> 2 ^ 64 \<longrightarrow>
      \<not> is_nan (linear_x (twist (encoder_callback toSec now ev s))) \<and>
      \<not> is_inf (linear_x (twist (encoder_callback toSec now ev s))) \<and>
      \<bar>dval (linear_x (twist (encoder_callback toSec now ev s))) -
         (real_of_int (sint (encoder_ticks ev)) / p) / (real (unat (duration ev)) / 1000000)\<bar>
        \<le> \<bar>(real_of_int (sint (encoder_ticks ev)) / p) /
             (real (unat (duration ev)) / 1000000)\<bar> / 2 ^ 51) \<and>
   linear_x (last (pose_publisher (encoder_callback toSec now
      \<lparr>encoder_ticks = 310, duration = 1000000\<rparr> (s\<lparr>ticks_per_meter := Fin 310\<rparr>)))) = Fin 1 \<and>
   linear_x (last (pose_publisher (encoder_callback toSec now
      \<lparr>encoder_ticks = - 155, duration = 500000\<rparr> (s\<lparr>ticks_per_meter := Fin 310\<rparr>)))) = Fin (- 1) \<and>
   linear_x (last (pose_publisher (encoder_callback toSec now
      \<lparr>encoder_ticks = 620, duration = 1000000\<rparr> (s\<lparr>ticks_per_meter := Fin 310\<rparr>)))) = Fin 2 \<and>
   linear_x (last (pose_publisher (encoder_callback toSec now
      \<lparr>encoder_ticks = 1, duration = 3\<rparr> (s\<lparr>ticks_per_meter := Fin 310\<rparr>)))) =
     Fin (4729082270004301 / 2 ^ 42)"
proof -
  have one: "ddiv (ddiv (of_int32 310) (Fin 310)) (ddiv (of_uint32 1000000) (Fin 1000000)) = Fin 1"
    by (simp add: dbl_eval)
  have minus_one:
    "ddiv (ddiv (of_int32 (- 155)) (Fin 310)) (ddiv (of_uint32 500000) (Fin 1000000)) = Fin (- 1)"
    by (simp add: dbl_eval)
  have two: "ddiv (ddiv (of_int32 620) (Fin 310)) (ddiv (of_uint32 1000000) (Fin 1000000)) = Fin 2"
    by (simp add: dbl_eval)
  have fast: "ddiv (ddiv (of_int32 1) (Fin 310)) (ddiv (of_uint32 3) (Fin 1000000)) =
      Fin (4729082270004301 / 2 ^ 42)"
    by (simp add: dbl_eval)
  have examples:
    "linear_x (last (pose_publisher (encoder_callback toSec now
        \<lparr>encoder_ticks = 310, duration = 1000000\<rparr> (s\<lparr>ticks_per_meter := Fin 310\<rparr>)))) = Fin 1"
    "linear_x (last (pose_publisher (encoder_callback toSec now
        \<lparr>encoder_ticks = - 155, duration = 500000\<rparr> (s\<lparr>ticks_per_meter := Fin 310\<rparr>)))) = Fin (- 1)"
    "linear_x (last (pose_publisher (encoder_callback toSec now
        \<lparr>encoder_ticks = 620, duration = 1000000\<rparr> (s\<lparr>ticks_per_meter := Fin 310\<rparr>)))) = Fin 2"
    "linear_x (last (pose_publisher (encoder_callback toSec now
        \<lparr>encoder_ticks = 1, duration = 3\<rparr> (s\<lparr>ticks_per_meter := Fin 310\<rparr>)))) =
       Fin (4729082270004301 / 2 ^ 42)"
    by (simp_all only: last_pose_publisher_encoder_callback linear_x_encoder_callback)
      (simp_all add: one minus_one two fast)
  have close: "\<not> is_nan (linear_x (twist (encoder_callback toSec now ev s))) \<and>
      \<not> is_inf (linear_x (twist (encoder_callback toSec now ev s))) \<and>
      \<bar>dval (linear_x (twist (encoder_callback toSec now ev s))) -
         (real_of_int (sint (encoder_ticks ev)) / p) / (real (unat (duration ev)) / 1000000)\<bar>
        \<le> \<bar>(real_of_int (sint (encoder_ticks ev)) / p) /
             (real (unat (duration ev)) / 1000000)\<bar> / 2 ^ 51"
    if "duration ev \<noteq> 0" "ticks_per_meter s = Fin p" "1 / 2 ^ 64 \<le> \<bar>p\<bar>" "\<bar>p\<bar> \<le> 2 ^ 64"
    unfolding linear_x_encoder_callback that(2)
    by (rule velocity_error [OF that(3,4,1)])
  have general: "pose_publisher (encoder_callback toSec now ev s) =
        pose_publisher s @ [twist (encoder_callback toSec now ev s)] \<and>
      linear_x (twist (encoder_callback toSec now ev s)) =
        ddiv (ddiv (of_int32 (encoder_ticks ev)) (ticks_per_meter s))
             (ddiv (of_uint32 (duration ev)) (Fin 1000000))"
    by (simp add: pose_publisher_encoder_callback linear_x_encoder_callback)
  from general close examples show ?thesis
    by blast
qed

theorem encoder_event_velocity_witness:
  "duration \<lparr>encoder_ticks = 100, duration = 3000\<rparr> \<noteq> 0 \<and>
   ticks_per_meter (main_init no_params) = Fin 310 \<and>
   1 / 2 ^ 64 \<le> \<bar>310 :: real\<bar> \<and> \<bar>310 :: real\<bar> \<le> 2 ^ 64 \<and>
   linear_x (twist (encoder_callback ros_toSec \<lparr>sec = 5, nsec = 0\<rparr>
      \<lparr>encoder_ticks = 100, duration = 3000\<rparr> (main_init no_params))) =
     Fin (7566531632006881 / 2 ^ 46) \<and>
   \<bar>dval (linear_x (twist (encoder_callback ros_toSec \<lparr>sec = 5, nsec = 0\<rparr>
      \<lparr>encoder_ticks = 100, duration = 3000\<rparr> (main_init no_params)))) -
      (real_of_int (sint (encoder_ticks \<lparr>encoder_ticks = 100, duration = 3000\<rparr>)) / 310) /
      (real (unat (duration \<lparr>encoder_ticks = 100, duration = 3000\<rparr>)) / 1000000)\<bar>
     \<le> \<bar>(real_of_int (sint (encoder_ticks \<lparr>encoder_ticks = 100, duration = 3000\<rparr>)) / 310) /
          (real (unat (duration \<lparr>encoder_ticks = 100, duration = 3000\<rparr>)) / 1000000)\<bar> / 2 ^ 51"
proof -
  let ?ev = "\<lparr>encoder_ticks = 100, duration = 3000\<rparr>"
  let ?v = "linear_x (twist (encoder_callback ros_toSec \<lparr>sec = 5, nsec = 0\<rparr> ?ev
      (main_init no_params)))"
  have tpm: "ticks_per_meter (main_init no_params) = Fin 310"
    by (simp add: main_init_def no_params_def param_def Let_def node_static_def)
  have dur: "duration ?ev \<noteq> 0"
    by simp
  have lo: "1 / 2 ^ 64 \<le> \<bar>310 :: real\<bar>" and hi: "\<bar>310 :: real\<bar> \<le> 2 ^ 64"
    by simp_all
  have v: "ddiv (ddiv (of_int32 100) (Fin 310)) (ddiv (of_uint32 3000) (Fin 1000000)) =
      Fin (7566531632006881 / 2 ^ 46)"
    by (simp add: dbl_eval)
  note inst = encoder_event_velocity [of ?ev ros_toSec "\<lparr>sec = 5, nsec = 0\<rparr>"
      "main_init no_params" 310]
  from inst [THEN conjunct1, rule_format, OF dur, THEN conjunct2]
  have eq: "?v = Fin (7566531632006881 / 2 ^ 46)"
    by (simp add: tpm v)
  have prem: "duration ?ev \<noteq> 0 \<and> ticks_per_meter (main_init no_params) = Fin 310 \<and>
      1 / 2 ^ 64 \<le> \<bar>310 :: real\<bar> \<and> \<bar>310 :: real\<bar> \<le> 2 ^ 64"
    using dur tpm lo hi by (intro conjI)
  note bound = inst [THEN conjunct2, THEN conjunct1, rule_format, OF prem,
      THEN conjunct2, THEN conjunct2]
  from dur tpm lo hi eq bound show ?thesis
    by (intro conjI)
qed

section \<open>The absolute tick count\<close>

lemma running_append:
  "running a (xs @ ys) = running a xs @ running (a + sum_list xs) ys"
  by (induction xs arbitrary: a) (simp_all add: add.assoc)

lemma length_running: "length (running a xs) = length xs"
  by (induction xs arbitrary: a) simp_all

lemma running_Nil_iff: "running a xs = [] \<longleftrightarrow> xs = []"
  by (cases xs) simp_all

lemma last_running: "xs \<noteq> [] \<Longrightarrow> last (running a xs) = a + sum_list xs"
  by (induction xs arbitrary: a) (auto simp: add.assoc running_Nil_iff)

lemma encoder_abs_encoder_callback:
  "encoder_abs (encoder_callback toSec now ev s) = encoder_abs s + encoder_ticks ev"
  by (simp add: encoder_callback_def Let_def)

lemma encoder_publisher_encoder_callback:
  "encoder_publisher (encoder_callback toSec now ev s) =
     encoder_publisher s @ [encoder_abs s + encoder_ticks ev]"
  by (simp add: encoder_callback_def Let_def)

lemma encoder_abs_watchdog: "encoder_abs (watchdog toSec now now' s) = encoder_abs s"
  by (simp add: watchdog_def Let_def)

lemma encoder_publisher_watchdog:
  "encoder_publisher (watchdog toSec now now' s) = encoder_publisher s"
  by (simp add: watchdog_def Let_def)

lemma counters_spinOnce:
  "encoder_abs (spinOnce toSec msgs s) = encoder_abs s + sum_list (map (encoder_ticks \<circ> snd) msgs) \<and>
   encoder_publisher (spinOnce toSec msgs s) =
     encoder_publisher s @ running (encoder_abs s) (map (encoder_ticks \<circ> snd) msgs)"
proof (induction msgs arbitrary: s)
  case Nil
  show ?case by (simp add: spinOnce_def)
next
  case (Cons m msgs)
  obtain now ev where m: "m = (now, ev)" by (cases m)
  have step: "spinOnce toSec (m # msgs) s = spinOnce toSec msgs (encoder_callback toSec now ev s)"
    by (simp add: spinOnce_def m)
  show ?case
    unfolding step
    by (simp add: Cons.IH encoder_abs_encoder_callback encoder_publisher_encoder_callback m
        add.assoc)
qed

lemma delivered_Cons: "delivered (t # turns) = map snd (queued t) @ delivered turns"
  by (simp add: delivered_def)

lemma counters_main_loop:
  "encoder_abs (main_loop toSec turns s) =
     encoder_abs s + sum_list (map encoder_ticks (delivered turns)) \<and>
   encoder_publisher (main_loop toSec turns s) =
     encoder_publisher s @ running (encoder_abs s) (map encoder_ticks (delivered turns))"
proof (induction turns arbitrary: s)
  case Nil
  show ?case by (simp add: main_loop_def delivered_def)
next
  case (Cons t turns)
  have step: "main_loop toSec (t # turns) s = main_loop toSec turns (loop_body toSec t s)"
    by (simp add: main_loop_def)
  have body: "encoder_abs (loop_body toSec t s) =
        encoder_abs s + sum_list (map encoder_ticks (map snd (queued t)))"
      "encoder_publisher (loop_body toSec t s) =
        encoder_publisher s @ running (encoder_abs s) (map encoder_ticks (map snd (queued t)))"
    by (simp_all add: loop_body_def encoder_abs_watchdog encoder_publisher_watchdog
        counters_spinOnce)
  show ?case
    unfolding step
    by (simp add: Cons.IH body delivered_Cons running_append add.assoc)
qed

lemma counters_main_init: "encoder_abs (main_init ps) = 0" "encoder_publisher (main_init ps) = []"
  by (simp_all add: main_init_def Let_def node_static_def)

lemma counters_main:
  "encoder_abs (snd (main toSec ps turns)) = sum_list (map encoder_ticks (delivered turns))"
  "encoder_publisher (snd (main toSec ps turns)) =
     running 0 (map encoder_ticks (delivered turns))"
  by (simp_all add: main_def counters_main_loop counters_main_init)

lemma sum_list_word_of_int:
  "sum_list (ws :: 32 word list) = word_of_int (sum_list (map sint ws))"
  by (induction ws) simp_all

lemma sum_list_mset_eq:
  fixes xs ys :: "32 word list"
  assumes "mset xs = mset ys"
  shows "sum_list xs = sum_list ys"
proof -
  have "sum_mset (mset xs) = sum_mset (mset ys)" using assms by simp
  then show ?thesis by (simp only: sum_mset_sum_list)
qed

text \<open>
  Claim C2, amended. After a run, \<^verbatim>\<open>encoder_abs\<close> is the sum of the tick counts of all
  delivered events, computed in 32-bit arithmetic from 0; the values broadcast on
  \<^verbatim>\<open>motor_encoder_abs\<close> are the running sums; the accumulator equals the exact integer sum
  whenever that sum lies in the range of \<^verbatim>\<open>int32_t\<close>; and two runs that deliver the same
  events in different orders end with the same accumulator.
\<close>

theorem absolute_tick_count_sum:
  "encoder_abs (snd (main toSec ps turns)) = sum_list (map encoder_ticks (delivered turns)) \<and>
   encoder_publisher (snd (main toSec ps turns)) =
     running 0 (map encoder_ticks (delivered turns)) \<and>
   (- (2 ^ 31) \<le> sum_list (map (sint \<circ> encoder_ticks) (delivered turns)) \<and>
    sum_list (map (sint \<circ> encoder_ticks) (delivered turns)) < 2 ^ 31 \<longrightarrow>
      sint (encoder_abs (snd (main toSec ps turns))) =
        sum_list (map (sint \<circ> encoder_ticks) (delivered turns))) \<and>
   (mset (delivered turns') = mset (delivered turns) \<longrightarrow>
      encoder_abs (snd (main toSec' ps' turns')) = encoder_abs (snd (main toSec ps turns)))"
proof -
  let ?S = "sum_list (map (sint \<circ> encoder_ticks) (delivered turns))"
  have w: "encoder_abs (snd (main toSec ps turns)) = word_of_int ?S"
    by (simp add: counters_main sum_list_word_of_int [of "map encoder_ticks (delivered turns)"] comp_def)
  have exact: "sint (encoder_abs (snd (main toSec ps turns))) = ?S"
    if "- (2 ^ 31) \<le> ?S" "?S < 2 ^ 31"
    unfolding w using that by (simp add: sint_sbintrunc' signed_take_bit_int_eq_self)
  have perm: "encoder_abs (snd (main toSec' ps' turns')) = encoder_abs (snd (main toSec ps turns))"
    if "mset (delivered turns') = mset (delivered turns)"
  proof -
    have "mset (map encoder_ticks (delivered turns')) = mset (map encoder_ticks (delivered turns))"
      using that by (metis mset_map)
    then show ?thesis
      by (simp add: counters_main sum_list_mset_eq)
  qed
  show ?thesis
    using exact perm by (simp add: counters_main)
qed


text \<open>
  The exact sum is not reached in general: after 2147483647 ticks one more tick takes the
  accumulator to -2147483648.
\<close>

theorem absolute_tick_count_sum_counterexample:
  "sint (encoder_abs (snd (main ros_toSec no_params
      [\<lparr>queued = [(\<lparr>sec = 5, nsec = 0\<rparr>, \<lparr>encoder_ticks = 2147483647, duration = 1000\<rparr>),
                  (\<lparr>sec = 6, nsec = 0\<rparr>, \<lparr>encoder_ticks = 1, duration = 1000\<rparr>)],
        check_now = \<lparr>sec = 6, nsec = 0\<rparr>, stamp_now = \<lparr>sec = 6, nsec = 0\<rparr>\<rparr>]))) = - 2147483648 \<and>
   sint (2147483647 :: 32 word) + sint (1 :: 32 word) = 2147483648"
  by (simp add: counters_main delivered_def)

theorem absolute_tick_count_sum_witness:
  "- (2 ^ 31) \<le> sum_list (map (sint \<circ> encoder_ticks) (delivered
      [\<lparr>queued = [(\<lparr>sec = 5, nsec = 0\<rparr>, \<lparr>encoder_ticks = 310, duration = 1000\<rparr>),
                  (\<lparr>sec = 6, nsec = 0\<rparr>, \<lparr>encoder_ticks = - 10, duration = 1000\<rparr>)],
        check_now = \<lparr>sec = 6, nsec = 0\<rparr>, stamp_now = \<lparr>sec = 6, nsec = 0\<rparr>\<rparr>])) \<and>
   sum_list (map (sint \<circ> encoder_ticks) (delivered
      [\<lparr>queued = [(\<lparr>sec = 5, nsec = 0\<rparr>, \<lparr>encoder_ticks = 310, duration = 1000\<rparr>),
                  (\<lparr>sec = 6, nsec = 0\<rparr>, \<lparr>encoder_ticks = - 10, duration = 1000\<rparr>)],
        check_now = \<lparr>sec = 6, nsec = 0\<rparr>, stamp_now = \<lparr>sec = 6, nsec = 0\<rparr>\<rparr>])) < 2 ^ 31 \<and>
   mset (delivered
      [\<lparr>queued = [(\<lparr>sec = 5, nsec = 0\<rparr>, \<lparr>encoder_ticks = - 10, duration = 1000\<rparr>)],
        check_now = \<lparr>sec = 5, nsec = 0\<rparr>, stamp_now = \<lparr>sec = 5, nsec = 0\<rparr>\<rparr>,
       \<lparr>queued = [(\<lparr>sec = 6, nsec = 0\<rparr>, \<lparr>encoder_ticks = 310, duration = 1000\<rparr>)],
        check_now = \<lparr>sec = 6, nsec = 0\<rparr>, stamp_now = \<lparr>sec = 6, nsec = 0\<rparr>\<rparr>]) =
   mset (delivered
      [\<lparr>queued = [(\<lparr>sec = 5, nsec = 0\<rparr>, \<lparr>encoder_ticks = 310, duration = 1000\<rparr>),
                  (\<lparr>sec = 6, nsec = 0\<rparr>, \<lparr>encoder_ticks = - 10, duration = 1000\<rparr>)],
        check_now = \<lparr>sec = 6, nsec = 0\<rparr>, stamp_now = \<lparr>sec = 6, nsec = 0\<rparr>\<rparr>]) \<and>
   sint (encoder_abs (snd (main ros_toSec no_params
      [\<lparr>queued = [(\<lparr>sec = 5, nsec = 0\<rparr>, \<lparr>encoder_ticks = 310, duration = 1000\<rparr>),
                  (\<lparr>sec = 6, nsec = 0\<rparr>, \<lparr>encoder_ticks = - 10, duration = 1000\<rparr>)],
        check_now = \<lparr>sec = 6, nsec = 0\<rparr>, stamp_now = \<lparr>sec = 6, nsec = 0\<rparr>\<rparr>]))) = 300 \<and>
   encoder_publisher (snd (main ros_toSec no_params
      [\<lparr>queued = [(\<lparr>sec = 5, nsec = 0\<rparr>, \<lparr>encoder_ticks = 310, duration = 1000\<rparr>),
                  (\<lparr>sec = 6, nsec = 0\<rparr>, \<lparr>encoder_ticks = - 10, duration = 1000\<rparr>)],
        check_now = \<lparr>sec = 6, nsec = 0\<rparr>, stamp_now = \<lparr>sec = 6, nsec = 0\<rparr>\<rparr>])) = [310, 300] \<and>
   encoder_abs (snd (main ros_toSec no_params
      [\<lparr>queued = [(\<lparr>sec = 5, nsec = 0\<rparr>, \<lparr>encoder_ticks = - 10, duration = 1000\<rparr>)],
        check_now = \<lparr>sec = 5, nsec = 0\<rparr>, stamp_now = \<lparr>sec = 5, nsec = 0\<rparr>\<rparr>,
       \<lparr>queued = [(\<lparr>sec = 6, nsec = 0\<rparr>, \<lparr>encoder_ticks = 310, duration = 1000\<rparr>)],
        check_now = \<lparr>sec = 6, nsec = 0\<rparr>, stamp_now = \<lparr>sec = 6, nsec = 0\<rparr>\<rparr>])) = 300"
  using absolute_tick_count_sum [of ros_toSec no_params
      "[\<lparr>queued = [(\<lparr>sec = 5, nsec = 0\<rparr>, \<lparr>encoder_ticks = 310, duration = 1000\<rparr>),
                  (\<lparr>sec = 6, nsec = 0\<rparr>, \<lparr>encoder_ticks = - 10, duration = 1000\<rparr>)],
        check_now = \<lparr>sec = 6, nsec = 0\<rparr>, stamp_now = \<lparr>sec = 6, nsec = 0\<rparr>\<rparr>]"
      "[\<lparr>queued = [(\<lparr>sec = 5, nsec = 0\<rparr>, \<lparr>encoder_ticks = - 10, duration = 1000\<rparr>)],
        check_now = \<lparr>sec = 5, nsec = 0\<rparr>, stamp_now = \<lparr>sec = 5, nsec = 0\<rparr>\<rparr>,
       \<lparr>queued = [(\<lparr>sec = 6, nsec = 0\<rparr>, \<lparr>encoder_ticks = 310, duration = 1000\<rparr>)],
        check_now = \<lparr>sec = 6, nsec = 0\<rparr>, stamp_now = \<lparr>sec = 6, nsec = 0\<rparr>\<rparr>]"
      ros_toSec no_params]
  by (simp add: delivered_def)

text \<open>
  Claim C10. The accumulator is the exact sum of the tick counts reduced modulo \<open>2 ^ 32\<close>
  and read as a signed 32-bit number; when the exact sum is outside the range of
  \<^verbatim>\<open>int32_t\<close> the accumulator differs from it; and the last value broadcast is the
  accumulator.
\<close>

theorem absolute_tick_count_wraps:
  "uint (encoder_abs (snd (main toSec ps turns))) =
     sum_list (map (sint \<circ> encoder_ticks) (delivered turns)) mod 2 ^ 32 \<and>
   sint (encoder_abs (snd (main toSec ps turns))) =
     signed_take_bit 31 (sum_list (map (sint \<circ> encoder_ticks) (delivered turns))) \<and>
   (sum_list (map (sint \<circ> encoder_ticks) (delivered turns)) < - (2 ^ 31) \<or>
    2 ^ 31 \<le> sum_list (map (sint \<circ> encoder_ticks) (delivered turns)) \<longrightarrow>
      sint (encoder_abs (snd (main toSec ps turns))) \<noteq>
        sum_list (map (sint \<circ> encoder_ticks) (delivered turns))) \<and>
   (delivered turns \<noteq> [] \<longrightarrow>
      last (encoder_publisher (snd (main toSec ps turns))) =
        encoder_abs (snd (main toSec ps turns)))"
proof -
  let ?S = "sum_list (map (sint \<circ> encoder_ticks) (delivered turns))"
  let ?a = "encoder_abs (snd (main toSec ps turns))"
  have w: "?a = word_of_int ?S"
    by (simp add: counters_main sum_list_word_of_int [of "map encoder_ticks (delivered turns)"]
        comp_def)
  have u: "uint ?a = ?S mod 2 ^ 32"
    unfolding w by (simp add: uint_word_of_int)
  have s: "sint ?a = signed_take_bit 31 ?S"
    unfolding w by (simp add: sint_sbintrunc')
  have range: "- (2 ^ 31) \<le> sint ?a" "sint ?a < 2 ^ 31"
    using sint_ge [of ?a] sint_lt [of ?a] by simp_all
  have differ: "sint ?a \<noteq> ?S" if "?S < - (2 ^ 31) \<or> 2 ^ 31 \<le> ?S"
    using that range by auto
  have bc: "last (encoder_publisher (snd (main toSec ps turns))) = ?a" if "delivered turns \<noteq> []"
    using that by (simp add: counters_main last_running)
  show ?thesis
    using u s differ bc by blast
qed

theorem absolute_tick_count_wraps_witness:
  "2 ^ 31 \<le> sum_list (map (sint \<circ> encoder_ticks) (delivered
      [\<lparr>queued = [(\<lparr>sec = 5, nsec = 0\<rparr>, \<lparr>encoder_ticks = 2147483647, duration = 1000\<rparr>),
                  (\<lparr>sec = 6, nsec = 0\<rparr>, \<lparr>encoder_ticks = 2, duration = 1000\<rparr>)],
        check_now = \<lparr>sec = 6, nsec = 0\<rparr>, stamp_now = \<lparr>sec = 6, nsec = 0\<rparr>\<rparr>])) \<and>
   delivered
      [\<lparr>queued = [(\<lparr>sec = 5, nsec = 0\<rparr>, \<lparr>encoder_ticks = 2147483647, duration = 1000\<rparr>),
                  (\<lparr>sec = 6, nsec = 0\<rparr>, \<lparr>encoder_ticks = 2, duration = 1000\<rparr>)],
        check_now = \<lparr>sec = 6, nsec = 0\<rparr>, stamp_now = \<lparr>sec = 6, nsec = 0\<rparr>\<rparr>] \<noteq> [] \<and>
   sint (encoder_abs (snd (main ros_toSec no_params
      [\<lparr>queued = [(\<lparr>sec = 5, nsec = 0\<rparr>, \<lparr>encoder_ticks = 2147483647, duration = 1000\<rparr>),
                  (\<lparr>sec = 6, nsec = 0\<rparr>, \<lparr>encoder_ticks = 2, duration = 1000\<rparr>)],
        check_now = \<lparr>sec = 6, nsec = 0\<rparr>, stamp_now = \<lparr>sec = 6, nsec = 0\<rparr>\<rparr>]))) = - 2147483647 \<and>
   last (encoder_publisher (snd (main ros_toSec no_params
      [\<lparr>queued = [(\<lparr>sec = 5, nsec = 0\<rparr>, \<lparr>encoder_ticks = 2147483647, duration = 1000\<rparr>),
                  (\<lparr>sec = 6, nsec = 0\<rparr>, \<lparr>encoder_ticks = 2, duration = 1000\<rparr>)],
        check_now = \<lparr>sec = 6, nsec = 0\<rparr>, stamp_now = \<lparr>sec = 6, nsec = 0\<rparr>\<rparr>]))) = - 2147483647"
  using absolute_tick_count_wraps [of ros_toSec no_params
      "[\<lparr>queued = [(\<lparr>sec = 5, nsec = 0\<rparr>, \<lparr>encoder_ticks = 2147483647, duration = 1000\<rparr>),
                  (\<lparr>sec = 6, nsec = 0\<rparr>, \<lparr>encoder_ticks = 2, duration = 1000\<rparr>)],
        check_now = \<lparr>sec = 6, nsec = 0\<rparr>, stamp_now = \<lparr>sec = 6, nsec = 0\<rparr>\<rparr>]"]
  by (simp add: delivered_def counters_main)

section \<open>Events of duration zero\<close>

lemma ddiv_by_zero_duration:
  "ddiv cm (ddiv (of_uint32 0) (Fin 1000000)) =
     (if is_nan cm \<or> (\<not> is_inf cm \<and> dval cm = 0) then NaN else dinf (dsign cm))"
proof -
  have "ddiv (of_uint32 0) (Fin 1000000) = Fin 0"
    by (simp add: ddiv_def of_uint32_def dround_def dzero_def)
  then show ?thesis
    by (cases cm) (simp_all add: ddiv_def dinf_def)
qed

lemma dinf_not_finite: "is_inf (dinf neg)"
  by (simp add: dinf_def)

text \<open>
  Claim C3, amended. The division by the duration is not guarded. An event of duration zero
  still appends one estimate to the velocity topic, and the velocity in it is never a
  finite number: it is a NaN when \<^verbatim>\<open>encoder_ticks / ticks_per_meter\<close> is zero or a NaN, and
  otherwise the infinity with the sign of \<^verbatim>\<open>encoder_ticks / ticks_per_meter\<close>.
\<close>

theorem zero_duration_velocity:
  assumes "duration ev = 0"
  shows "pose_publisher (encoder_callback toSec now ev s) =
           pose_publisher s @ [twist (encoder_callback toSec now ev s)] \<and>
         linear_x (twist (encoder_callback toSec now ev s)) =
           (if is_nan (ddiv (of_int32 (encoder_ticks ev)) (ticks_per_meter s)) \<or>
               (\<not> is_inf (ddiv (of_int32 (encoder_ticks ev)) (ticks_per_meter s)) \<and>
                dval (ddiv (of_int32 (encoder_ticks ev)) (ticks_per_meter s)) = 0)
            then NaN
            else dinf (dsign (ddiv (of_int32 (encoder_ticks ev)) (ticks_per_meter s)))) \<and>
         (is_nan (linear_x (twist (encoder_callback toSec now ev s))) \<or>
          is_inf (linear_x (twist (encoder_callback toSec now ev s))))"
  by (simp add: pose_publisher_encoder_callback linear_x_encoder_callback assms
      ddiv_by_zero_duration dinf_not_finite)

lemma ticks_per_meter_default: "ticks_per_meter (main_init no_params) = Fin 310"
  by (simp add: main_init_def no_params_def param_def Let_def node_static_def)

text \<open>With the default 310 ticks per meter, one tick in zero microseconds is published as plus infinity.\<close>

theorem zero_duration_velocity_counterexample:
  "linear_x (last (pose_publisher (encoder_callback ros_toSec \<lparr>sec = 5, nsec = 0\<rparr>
      \<lparr>encoder_ticks = 1, duration = 0\<rparr> (main_init no_params)))) = PInf"
  by (simp add: last_pose_publisher_encoder_callback linear_x_encoder_callback
      ticks_per_meter_default dbl_eval)

theorem zero_duration_velocity_witness:
  "duration \<lparr>encoder_ticks = 0, duration = 0\<rparr> = 0 \<and>
   linear_x (twist (encoder_callback ros_toSec \<lparr>sec = 5, nsec = 0\<rparr>
      \<lparr>encoder_ticks = 0, duration = 0\<rparr> (main_init no_params))) = NaN"
  using zero_duration_velocity [of "\<lparr>encoder_ticks = 0, duration = 0\<rparr>" ros_toSec
      "\<lparr>sec = 5, nsec = 0\<rparr>" "main_init no_params"]
  by (simp add: ticks_per_meter_default dbl_eval)

section \<open>Startup\<close>

lemma config_encoder_callback:
  "ticks_per_meter (encoder_callback toSec now ev s) = ticks_per_meter s"
  "deadline_timeout (encoder_callback toSec now ev s) = deadline_timeout s"
  "uncertainty_fixed (encoder_callback toSec now ev s) = uncertainty_fixed s"
  by (simp_all add: encoder_callback_def Let_def)

lemma config_watchdog:
  "ticks_per_meter (watchdog toSec now now' s) = ticks_per_meter s"
  "deadline_timeout (watchdog toSec now now' s) = deadline_timeout s"
  "uncertainty_fixed (watchdog toSec now now' s) = uncertainty_fixed s"
  by (simp_all add: watchdog_def Let_def)

lemma config_main_loop:
  "ticks_per_meter (main_loop toSec turns s) = ticks_per_meter s"
  "deadline_timeout (main_loop toSec turns s) = deadline_timeout s"
  "uncertainty_fixed (main_loop toSec turns s) = uncertainty_fixed s"
proof -
  show "ticks_per_meter (main_loop toSec turns s) = ticks_per_meter s"
    by (rule main_loop_invariant [where P = "\<lambda>s'. ticks_per_meter s' = ticks_per_meter s"])
      (simp_all add: config_encoder_callback config_watchdog)
  show "deadline_timeout (main_loop toSec turns s) = deadline_timeout s"
    by (rule main_loop_invariant [where P = "\<lambda>s'. deadline_timeout s' = deadline_timeout s"])
      (simp_all add: config_encoder_callback config_watchdog)
  show "uncertainty_fixed (main_loop toSec turns s) = uncertainty_fixed s"
    by (rule main_loop_invariant [where P = "\<lambda>s'. uncertainty_fixed s' = uncertainty_fixed s"])
      (simp_all add: config_encoder_callback config_watchdog)
qed

lemma config_main_init:
  "ticks_per_meter (main_init ps) = param (param_ticks_per_meter ps) (Fin 310)"
  "deadline_timeout (main_init ps) = param (param_deadline_timeout ps) (dround False (1 / 10))"
  "uncertainty_fixed (main_init ps) = param (param_uncertainty_fixed ps) (dround False (1 / 1000))"
  by (simp_all add: main_init_def Let_def node_static_def)

lemma length_pose_publisher_watchdog:
  "length (pose_publisher s) \<le> length (pose_publisher (watchdog toSec now now' s))"
  by (simp add: watchdog_def Let_def)

lemma length_pose_publisher_spinOnce:
  "length (pose_publisher (spinOnce toSec msgs s)) = length (pose_publisher s) + length msgs"
proof (induction msgs arbitrary: s)
  case Nil
  show ?case by (simp add: spinOnce_def)
next
  case (Cons m msgs)
  obtain now ev where m: "m = (now, ev)" by (cases m)
  have "spinOnce toSec (m # msgs) s = spinOnce toSec msgs (encoder_callback toSec now ev s)"
    by (simp add: spinOnce_def m)
  then show ?case
    by (simp add: Cons.IH pose_publisher_encoder_callback)
qed

lemma length_pose_publisher_main_loop:
  "length (pose_publisher s) + length (delivered turns) \<le>
     length (pose_publisher (main_loop toSec turns s))"
proof (induction turns arbitrary: s)
  case Nil
  show ?case by (simp add: main_loop_def delivered_def)
next
  case (Cons t turns)
  have step: "main_loop toSec (t # turns) s = main_loop toSec turns (loop_body toSec t s)"
    by (simp add: main_loop_def)
  have "length (pose_publisher s) + length (queued t) \<le> length (pose_publisher (loop_body toSec t s))"
    using length_pose_publisher_watchdog [of "spinOnce toSec (queued t) s" toSec "check_now t" "stamp_now t"]
    by (simp add: loop_body_def length_pose_publisher_spinOnce)
  with Cons.IH [of "loop_body toSec t s"] show ?case
    unfolding step by (simp add: delivered_Cons)
qed

text \<open>
  Claim C7, amended. Startup checks no parameter. Whatever \<^verbatim>\<open>ticks_per_meter\<close> and
  \<^verbatim>\<open>deadline_timeout\<close> are, non-positive values included, they are stored as given and
  kept for the whole run, every delivered event is broadcast on both topics, and \<^verbatim>\<open>main\<close>
  returns 0 when the loop ends: the code has no fatal condition.
\<close>

theorem startup_accepts_every_configuration:
  "fst (main toSec ps turns) = 0 \<and>
   ticks_per_meter (snd (main toSec ps turns)) = param (param_ticks_per_meter ps) (Fin 310) \<and>
   deadline_timeout (snd (main toSec ps turns)) =
     param (param_deadline_timeout ps) (dround False (1 / 10)) \<and>
   length (encoder_publisher (snd (main toSec ps turns))) = length (delivered turns) \<and>
   length (delivered turns) \<le> length (pose_publisher (snd (main toSec ps turns)))"
proof -
  have "length (delivered turns) \<le> length (pose_publisher (main_loop toSec turns (main_init ps)))"
    using length_pose_publisher_main_loop [of "main_init ps" turns toSec] by simp
  then show ?thesis
    by (simp add: main_def config_main_loop config_main_init counters_main_loop
        counters_main_init length_running)
qed

text \<open>
  With \<^verbatim>\<open>ticks_per_meter\<close> set to 0 and \<^verbatim>\<open>deadline_timeout\<close> set to -1 the node starts,
  handles the event it is given and ends with status 0.
\<close>

theorem startup_accepts_every_configuration_counterexample:
  "fst (main ros_toSec
      \<lparr>param_ticks_per_meter = Some (Fin 0), param_frame_id = None,
       param_uncertainty_fixed = None, param_deadline_timeout = Some (Fin (- 1))\<rparr>
      [\<lparr>queued = [(\<lparr>sec = 5, nsec = 0\<rparr>, \<lparr>encoder_ticks = 1, duration = 1000000\<rparr>)],
        check_now = \<lparr>sec = 5, nsec = 0\<rparr>, stamp_now = \<lparr>sec = 5, nsec = 0\<rparr>\<rparr>]) = 0 \<and>
   encoder_publisher (snd (main ros_toSec
      \<lparr>param_ticks_per_meter = Some (Fin 0), param_frame_id = None,
       param_uncertainty_fixed = None, param_deadline_timeout = Some (Fin (- 1))\<rparr>
      [\<lparr>queued = [(\<lparr>sec = 5, nsec = 0\<rparr>, \<lparr>encoder_ticks = 1, duration = 1000000\<rparr>)],
        check_now = \<lparr>sec = 5, nsec = 0\<rparr>, stamp_now = \<lparr>sec = 5, nsec = 0\<rparr>\<rparr>])) = [1] \<and>
   map linear_x (pose_publisher (snd (main ros_toSec
      \<lparr>param_ticks_per_meter = Some (Fin 0), param_frame_id = None,
       param_uncertainty_fixed = None, param_deadline_timeout = Some (Fin (- 1))\<rparr>
      [\<lparr>queued = [(\<lparr>sec = 5, nsec = 0\<rparr>, \<lparr>encoder_ticks = 1, duration = 1000000\<rparr>)],
        check_now = \<lparr>sec = 5, nsec = 0\<rparr>, stamp_now = \<lparr>sec = 5, nsec = 0\<rparr>\<rparr>]))) = [PInf, Fin 0]"
proof -
  let ?ps = "\<lparr>param_ticks_per_meter = Some (Fin 0), param_frame_id = None,
       param_uncertainty_fixed = None, param_deadline_timeout = Some (Fin (- 1))\<rparr>"
  let ?t = "\<lparr>sec = 5, nsec = 0\<rparr>"
  let ?s1 = "encoder_callback ros_toSec ?t \<lparr>encoder_ticks = 1, duration = 1000000\<rparr> (main_init ?ps)"
  have t: "ros_toSec ?t = Fin 5"
    by (simp add: ros_toSec_def dbl_eval)
  have init: "pose_publisher (main_init ?ps) = []" "ticks_per_meter (main_init ?ps) = Fin 0"
    "deadline_timeout (main_init ?ps) = Fin (- 1)"
    by (simp_all add: main_init_def Let_def node_static_def param_def)
  have s1: "last_publish_time ?s1 = Fin 5" "deadline_timeout ?s1 = Fin (- 1)"
    "pose_publisher ?s1 = [twist ?s1]" "linear_x (twist ?s1) = PInf"
    by (simp_all add: config_encoder_callback pose_publisher_encoder_callback init
        linear_x_encoder_callback dbl_eval)
      (simp_all add: encoder_callback_def Let_def t set_stamp_def inc_seq_def)
  have fire: "dgt (dsub (ros_toSec ?t) (last_publish_time ?s1)) (deadline_timeout ?s1)"
    by (simp add: s1 t dbl_eval)
  have "map linear_x (pose_publisher (watchdog ros_toSec ?t ?t ?s1)) = [PInf, Fin 0]"
    using fire s1(4) by (simp add: watchdog_def Let_def s1(1-3) linear_x_def set_linear_x_def)
  then show ?thesis
    by (simp add: main_def counters_main_loop counters_main_init delivered_def)
      (simp add: main_loop_def loop_body_def spinOnce_def)
qed

section \<open>The deadline\<close>

lemma watchdog_fires:
  assumes "dgt (dsub (toSec now) (last_publish_time s)) (deadline_timeout s)"
  shows "watchdog toSec now now' s =
           s\<lparr>last_publish_time := toSec now,
             twist := set_linear_x (Fin 0) (inc_seq (set_stamp now' (twist s))),
             pose_publisher :=
               pose_publisher s @ [set_linear_x (Fin 0) (inc_seq (set_stamp now' (twist s)))]\<rparr>"
  using assms by (simp add: watchdog_def Let_def)


lemma linear_x_set_linear_x: "linear_x (set_linear_x v m) = v"
  by (simp add: linear_x_def set_linear_x_def)

lemma start_main_init:
  "last_publish_time (main_init ps) = Fin 0" "pose_publisher (main_init ps) = []"
  "seq (header (twist (main_init ps))) = 0"
  by (simp_all add: main_init_def Let_def node_static_def set_covariance_def)





lemma dround_sign_irrelevant: "x \<noteq> 0 \<Longrightarrow> dround neg x = dround False x"
  by (simp add: dround_def)

lemma dsub_zero:
  assumes "dvalid t"
  shows "dsub t (Fin 0) = t"
proof (cases t)
  case (Fin x)
  show ?thesis
  proof (cases "x = 0")
    case True
    with Fin show ?thesis by (simp add: dsub_def dround_def dzero_def)
  next
    case False
    with Fin assms have "dround False x = Fin x" by simp
    with False Fin show ?thesis
      by (simp add: dsub_def dround_sign_irrelevant [of x "x < 0"])
  qed
qed (simp_all add: dsub_def dround_def dzero_def)

text \<open>
  Claim C9. \<^verbatim>\<open>last_publish_time\<close> starts at 0. If the first turn of the loop finds no
  message queued and the clock reads more than \<^verbatim>\<open>deadline_timeout\<close>, its check publishes
  an estimate of velocity zero, the first message of the run, before any encoder event.
\<close>

theorem first_check_publishes:
  assumes "dvalid (toSec (check_now t))"
    and "dgt (toSec (check_now t)) (deadline_timeout (main_init ps))"
    and "queued t = []"
  shows "map linear_x (pose_publisher (snd (main toSec ps [t]))) = [Fin 0] \<and>
         encoder_publisher (snd (main toSec ps [t])) = [] \<and>
         last_publish_time (snd (main toSec ps [t])) = toSec (check_now t)"
proof -
  have fire: "dgt (dsub (toSec (check_now t)) (last_publish_time (main_init ps)))
      (deadline_timeout (main_init ps))"
    using assms(1,2) by (simp add: start_main_init dsub_zero)
  have "snd (main toSec ps [t]) = watchdog toSec (check_now t) (stamp_now t) (main_init ps)"
    by (simp add: main_def main_loop_def loop_body_def spinOnce_def assms(3))
  then show ?thesis
    by (simp add: watchdog_fires [of toSec "check_now t" "main_init ps" "stamp_now t", OF fire]
        start_main_init linear_x_set_linear_x counters_main_init)
qed


theorem first_check_publishes_witness:
  "dvalid (ros_toSec (check_now \<lparr>queued = [], check_now = \<lparr>sec = 1700000000, nsec = 500000000\<rparr>,
      stamp_now = \<lparr>sec = 1700000000, nsec = 500000100\<rparr>\<rparr>)) \<and>
   dgt (ros_toSec (check_now \<lparr>queued = [], check_now = \<lparr>sec = 1700000000, nsec = 500000000\<rparr>,
      stamp_now = \<lparr>sec = 1700000000, nsec = 500000100\<rparr>\<rparr>)) (deadline_timeout (main_init no_params)) \<and>
   queued \<lparr>queued = [], check_now = \<lparr>sec = 1700000000, nsec = 500000000\<rparr>,
      stamp_now = \<lparr>sec = 1700000000, nsec = 500000100\<rparr>\<rparr> = [] \<and>
   map linear_x (pose_publisher (snd (main ros_toSec no_params
      [\<lparr>queued = [], check_now = \<lparr>sec = 1700000000, nsec = 500000000\<rparr>,
         stamp_now = \<lparr>sec = 1700000000, nsec = 500000100\<rparr>\<rparr>]))) = [Fin 0] \<and>
   encoder_publisher (snd (main ros_toSec no_params
      [\<lparr>queued = [], check_now = \<lparr>sec = 1700000000, nsec = 500000000\<rparr>,
         stamp_now = \<lparr>sec = 1700000000, nsec = 500000100\<rparr>\<rparr>])) = []"
proof -
  have t: "ros_toSec \<lparr>sec = 1700000000, nsec = 500000000\<rparr> = Fin (3400000001 / 2)"
    by (simp add: ros_toSec_def dbl_eval)
  have valid: "dvalid (Fin (3400000001 / 2))"
    by (simp add: dbl_eval)
  have late: "dgt (Fin (3400000001 / 2)) (deadline_timeout (main_init no_params))"
    by (simp add: config_main_init no_params_def param_def dbl_eval)
  show ?thesis
    using first_check_publishes [of ros_toSec
        "\<lparr>queued = [], check_now = \<lparr>sec = 1700000000, nsec = 500000000\<rparr>,
           stamp_now = \<lparr>sec = 1700000000, nsec = 500000100\<rparr>\<rparr>" no_params]
      valid late
    by (simp add: t)
qed

section \<open>The covariance and the unmeasured components\<close>

lemma length_cov_loop: "length (cov_loop i elems) = length elems"
proof (induction i elems rule: cov_loop.induct)
  case (1 i elems)
  show ?case
    by (subst cov_loop.simps) (simp add: "1.IH")
qed

lemma nth_cov_loop:
  "k < length elems \<Longrightarrow> length elems = 36 \<Longrightarrow>
     cov_loop i elems ! k = (if i \<le> k \<and> (k - i) mod 7 = 0 then Fin 999 else elems ! k)"
proof (induction i elems rule: cov_loop.induct)
  case (1 i elems)
  show ?case
  proof (cases "i < 36")
    case True
    have arith: "(i \<le> k \<and> (k - i) mod 7 = 0) \<longleftrightarrow> (i = k \<or> (i + 7 \<le> k \<and> (k - (i + 7)) mod 7 = 0))"
      by presburger
    have "cov_loop i elems ! k = cov_loop (i + 7) (elems[i := Fin 999]) ! k"
      using True by (subst cov_loop.simps) simp
    also have "\<dots> = (if i + 7 \<le> k \<and> (k - (i + 7)) mod 7 = 0 then Fin 999
        else elems[i := Fin 999] ! k)"
      using "1.IH" [OF True] "1.prems" by simp
    also have "\<dots> = (if i \<le> k \<and> (k - i) mod 7 = 0 then Fin 999 else elems ! k)"
      using "1.prems" True unfolding arith by (auto simp: nth_list_update)
    finally show ?thesis .
  next
    case False
    with "1.prems" show ?thesis
      by (subst cov_loop.simps) simp
  qed
qed

lemma covariance_main_init:
  "length (covariance (twc (twist (main_init ps)))) = 36"
  "k < 36 \<Longrightarrow> covariance (twc (twist (main_init ps))) ! k =
     (if k = 0 then uncertainty_fixed (main_init ps)
      else if k mod 7 = 0 then Fin 999 else Fin 0)"
proof -
  show "length (covariance (twc (twist (main_init ps)))) = 36"
    by (simp add: main_init_def Let_def set_covariance_def node_static_def twist_default_def
        length_cov_loop)
  assume k: "k < 36"
  have "covariance (twc (twist (main_init ps))) =
      (cov_loop 0 (replicate 36 (Fin 0)))[0 := uncertainty_fixed (main_init ps)]"
    by (simp add: main_init_def Let_def set_covariance_def node_static_def twist_default_def)
  then show "covariance (twc (twist (main_init ps))) ! k =
     (if k = 0 then uncertainty_fixed (main_init ps)
      else if k mod 7 = 0 then Fin 999 else Fin 0)"
    using k by (simp add: nth_list_update length_cov_loop nth_cov_loop)
qed

lemma below_six: "(r::nat) < 6 \<Longrightarrow> r = 0 \<or> r = 1 \<or> r = 2 \<or> r = 3 \<or> r = 4 \<or> r = 5"
  by arith

lemma diagonal_index:
  fixes r c :: nat
  assumes "r < 6" "c < 6"
  shows "6 * r + c < 36" "(6 * r + c = 0) = (r = 0 \<and> c = 0)" "((6 * r + c) mod 7 = 0) = (r = c)"
proof -
  show "6 * r + c < 36" using assms by arith
  show "(6 * r + c = 0) = (r = 0 \<and> c = 0)" by simp
  show "((6 * r + c) mod 7 = 0) = (r = c)"
    using below_six [OF assms(1)] below_six [OF assms(2)] by (elim disjE) simp_all
qed

lemma message_encoder_callback:
  "twc (twist (encoder_callback toSec now ev s)) =
     (twc (twist s))\<lparr>tw := (tw (twc (twist s)))\<lparr>linear :=
        (linear (tw (twc (twist s))))\<lparr>v_x := linear_x (twist (encoder_callback toSec now ev s))\<rparr>\<rparr>\<rparr>"
  by (simp add: encoder_callback_def Let_def set_linear_x_def inc_seq_def set_stamp_def
      linear_x_def)

lemma message_watchdog:
  "twc (twist (watchdog toSec now now' s)) =
     (twc (twist s))\<lparr>tw := (tw (twc (twist s)))\<lparr>linear :=
        (linear (tw (twc (twist s))))\<lparr>v_x := linear_x (twist (watchdog toSec now now' s))\<rparr>\<rparr>\<rparr>"
  by (simp add: watchdog_def Let_def set_linear_x_def inc_seq_def set_stamp_def linear_x_def)

lemma pose_publisher_watchdog:
  "pose_publisher (watchdog toSec now now' s) = pose_publisher s \<or>
   pose_publisher (watchdog toSec now now' s) =
     pose_publisher s @ [twist (watchdog toSec now now' s)]"
  by (simp add: watchdog_def Let_def)

lemma published_invariant:
  assumes init: "Q (twc (twist s))" "\<forall>m \<in> set (pose_publisher s). Q (twc m)"
    and step: "\<And>c v. Q c \<Longrightarrow> Q (c\<lparr>tw := (tw c)\<lparr>linear := (linear (tw c))\<lparr>v_x := v\<rparr>\<rparr>\<rparr>)"
  shows "Q (twc (twist (main_loop toSec turns s))) \<and>
         (\<forall>m \<in> set (pose_publisher (main_loop toSec turns s)). Q (twc m))"
proof (rule main_loop_invariant
    [where P = "\<lambda>s. Q (twc (twist s)) \<and> (\<forall>m \<in> set (pose_publisher s). Q (twc m))"])
  show "Q (twc (twist s)) \<and> (\<forall>m \<in> set (pose_publisher s). Q (twc m))"
    using init by simp
next
  fix now ev and s :: node
  assume "Q (twc (twist s)) \<and> (\<forall>m \<in> set (pose_publisher s). Q (twc m))"
  then show "Q (twc (twist (encoder_callback toSec now ev s))) \<and>
      (\<forall>m \<in> set (pose_publisher (encoder_callback toSec now ev s)). Q (twc m))"
    using step [of "twc (twist s)"]
    by (simp add: pose_publisher_encoder_callback message_encoder_callback)
next
  fix now now' and s :: node
  assume inv: "Q (twc (twist s)) \<and> (\<forall>m \<in> set (pose_publisher s). Q (twc m))"
  then have "Q (twc (twist (watchdog toSec now now' s)))"
    using step [of "twc (twist s)"] by (simp add: message_watchdog)
  with inv show "Q (twc (twist (watchdog toSec now now' s))) \<and>
      (\<forall>m \<in> set (pose_publisher (watchdog toSec now now' s)). Q (twc m))"
    using pose_publisher_watchdog [of toSec now now' s] by auto
qed

text \<open>
  Claim C5. Every estimate published in a run carries the covariance set up at startup:
  36 entries, those off the diagonal 0, the diagonal entries of y, z, roll, pitch and yaw
  999, the diagonal entry of x the value of \<^verbatim>\<open>uncertainty_fixed\<close> (the parameter, or the
  double nearest to 0.001 when it is not set). The covariance of the message the node
  keeps is at the end what it was after startup.
\<close>

theorem covariance_fixed:
  "(\<forall>m \<in> set (pose_publisher (snd (main toSec ps turns))).
      length (covariance (twc m)) = 36 \<and>
      (\<forall>r < 6. \<forall>c < 6. covariance (twc m) ! (6 * r + c) =
         (if r \<noteq> c then Fin 0
          else if r = 0 then param (param_uncertainty_fixed ps) (dround False (1 / 1000))
          else Fin 999))) \<and>
   covariance (twc (twist (snd (main toSec ps turns)))) =
     covariance (twc (twist (main_init ps)))"
proof -
  let ?C = "covariance (twc (twist (main_init ps)))"
  have inv: "covariance (twc (twist (main_loop toSec turns (main_init ps)))) = ?C \<and>
      (\<forall>m \<in> set (pose_publisher (main_loop toSec turns (main_init ps))).
         covariance (twc m) = ?C)"
    by (rule published_invariant [where Q = "\<lambda>c. covariance c = ?C"])
      (simp_all add: start_main_init)
  have entry: "?C ! (6 * r + c) =
      (if r \<noteq> c then Fin 0
       else if r = 0 then param (param_uncertainty_fixed ps) (dround False (1 / 1000))
       else Fin 999)" if "r < 6" "c < 6" for r c
    using diagonal_index [OF that] by (auto simp add: covariance_main_init config_main_init)
  show ?thesis
    using inv entry by (simp add: main_def covariance_main_init(1))
qed

lemma published_something:
  "delivered turns \<noteq> [] \<Longrightarrow>
     hd (pose_publisher (snd (main toSec ps turns))) \<in> set (pose_publisher (snd (main toSec ps turns)))"
proof -
  assume "delivered turns \<noteq> []"
  then have "0 < length (delivered turns)" by simp
  also have "\<dots> \<le> length (pose_publisher (snd (main toSec ps turns)))"
    using length_pose_publisher_main_loop [of "main_init ps" turns toSec] by (simp add: main_def)
  finally show ?thesis by simp
qed

theorem covariance_fixed_witness:
  "hd (pose_publisher (snd (main ros_toSec no_params
      [\<lparr>queued = [(\<lparr>sec = 5, nsec = 0\<rparr>, \<lparr>encoder_ticks = 310, duration = 1000000\<rparr>)],
        check_now = \<lparr>sec = 5, nsec = 200000000\<rparr>, stamp_now = \<lparr>sec = 5, nsec = 200000000\<rparr>\<rparr>])))
     \<in> set (pose_publisher (snd (main ros_toSec no_params
      [\<lparr>queued = [(\<lparr>sec = 5, nsec = 0\<rparr>, \<lparr>encoder_ticks = 310, duration = 1000000\<rparr>)],
        check_now = \<lparr>sec = 5, nsec = 200000000\<rparr>, stamp_now = \<lparr>sec = 5, nsec = 200000000\<rparr>\<rparr>]))) \<and>
   (0::nat) < 6 \<and> (1::nat) < 6 \<and> (2::nat) < 6 \<and>
   covariance (twc (hd (pose_publisher (snd (main ros_toSec no_params
      [\<lparr>queued = [(\<lparr>sec = 5, nsec = 0\<rparr>, \<lparr>encoder_ticks = 310, duration = 1000000\<rparr>)],
        check_now = \<lparr>sec = 5, nsec = 200000000\<rparr>, stamp_now = \<lparr>sec = 5, nsec = 200000000\<rparr>\<rparr>]))))) ! 0
     = Fin (1152921504606847 / 2 ^ 60) \<and>
   covariance (twc (hd (pose_publisher (snd (main ros_toSec no_params
      [\<lparr>queued = [(\<lparr>sec = 5, nsec = 0\<rparr>, \<lparr>encoder_ticks = 310, duration = 1000000\<rparr>)],
        check_now = \<lparr>sec = 5, nsec = 200000000\<rparr>, stamp_now = \<lparr>sec = 5, nsec = 200000000\<rparr>\<rparr>]))))) ! 7
     = Fin 999 \<and>
   covariance (twc (hd (pose_publisher (snd (main ros_toSec no_params
      [\<lparr>queued = [(\<lparr>sec = 5, nsec = 0\<rparr>, \<lparr>encoder_ticks = 310, duration = 1000000\<rparr>)],
        check_now = \<lparr>sec = 5, nsec = 200000000\<rparr>, stamp_now = \<lparr>sec = 5, nsec = 200000000\<rparr>\<rparr>]))))) ! 8
     = Fin 0"
proof -
  let ?turns = "[\<lparr>queued = [(\<lparr>sec = 5, nsec = 0\<rparr>, \<lparr>encoder_ticks = 310, duration = 1000000\<rparr>)],
        check_now = \<lparr>sec = 5, nsec = 200000000\<rparr>, stamp_now = \<lparr>sec = 5, nsec = 200000000\<rparr>\<rparr>]"
  let ?m = "hd (pose_publisher (snd (main ros_toSec no_params ?turns)))"
  have m: "?m \<in> set (pose_publisher (snd (main ros_toSec no_params ?turns)))"
    by (rule published_something) (simp add: delivered_def)
  have u: "param (param_uncertainty_fixed no_params) (dround False (1 / 1000)) =
      Fin (1152921504606847 / 2 ^ 60)"
    by (simp add: no_params_def param_def dbl_eval)
  from covariance_fixed [of ros_toSec no_params ?turns] m
  have all: "\<forall>r<6. \<forall>c<6. covariance (twc ?m) ! (6 * r + c) =
      (if r \<noteq> c then Fin 0 else if r = 0 then Fin (1152921504606847 / 2 ^ 60) else Fin 999)"
    unfolding u by blast
  have "covariance (twc ?m) ! (6 * 0 + 0) = Fin (1152921504606847 / 2 ^ 60)"
    "covariance (twc ?m) ! (6 * 1 + 1) = Fin 999" "covariance (twc ?m) ! (6 * 1 + 2) = Fin 0"
    using all [rule_format, of 0 0] all [rule_format, of 1 1] all [rule_format, of 1 2]
    by simp_all
  then show ?thesis
    using m by simp
qed

text \<open>
  Claim C8. In every estimate published in a run the components of the twist other than
  \<^verbatim>\<open>linear.x\<close> are zero: \<^verbatim>\<open>linear.y\<close>, \<^verbatim>\<open>linear.z\<close> and the three of \<^verbatim>\<open>angular\<close>.
\<close>

theorem only_linear_x_varies:
  "\<forall>m \<in> set (pose_publisher (snd (main toSec ps turns))).
      v_y (linear (tw (twc m))) = Fin 0 \<and> v_z (linear (tw (twc m))) = Fin 0 \<and>
      v_x (angular (tw (twc m))) = Fin 0 \<and> v_y (angular (tw (twc m))) = Fin 0 \<and>
      v_z (angular (tw (twc m))) = Fin 0"
proof -
  have "tw (twc (twist (main_init ps))) = \<lparr>linear = vector3_zero, angular = vector3_zero\<rparr>"
    by (simp add: main_init_def Let_def set_covariance_def node_static_def twist_default_def)
  then show ?thesis
    using published_invariant [where Q = "\<lambda>c.
        v_y (linear (tw c)) = Fin 0 \<and> v_z (linear (tw c)) = Fin 0 \<and>
        v_x (angular (tw c)) = Fin 0 \<and> v_y (angular (tw c)) = Fin 0 \<and>
        v_z (angular (tw c)) = Fin 0" and s = "main_init ps" and toSec = toSec and turns = turns]
    by (simp add: main_def start_main_init vector3_zero_def)
qed


theorem only_linear_x_varies_witness:
  "hd (pose_publisher (snd (main ros_toSec no_params
      [\<lparr>queued = [(\<lparr>sec = 5, nsec = 0\<rparr>, \<lparr>encoder_ticks = 310, duration = 1000000\<rparr>)],
        check_now = \<lparr>sec = 5, nsec = 200000000\<rparr>, stamp_now = \<lparr>sec = 5, nsec = 200000000\<rparr>\<rparr>])))
     \<in> set (pose_publisher (snd (main ros_toSec no_params
      [\<lparr>queued = [(\<lparr>sec = 5, nsec = 0\<rparr>, \<lparr>encoder_ticks = 310, duration = 1000000\<rparr>)],
        check_now = \<lparr>sec = 5, nsec = 200000000\<rparr>, stamp_now = \<lparr>sec = 5, nsec = 200000000\<rparr>\<rparr>]))) \<and>
   v_y (linear (tw (twc (hd (pose_publisher (snd (main ros_toSec no_params
      [\<lparr>queued = [(\<lparr>sec = 5, nsec = 0\<rparr>, \<lparr>encoder_ticks = 310, duration = 1000000\<rparr>)],
        check_now = \<lparr>sec = 5, nsec = 200000000\<rparr>, stamp_now = \<lparr>sec = 5, nsec = 200000000\<rparr>\<rparr>]))))))) = Fin 0 \<and>
   v_z (angular (tw (twc (hd (pose_publisher (snd (main ros_toSec no_params
      [\<lparr>queued = [(\<lparr>sec = 5, nsec = 0\<rparr>, \<lparr>encoder_ticks = 310, duration = 1000000\<rparr>)],
        check_now = \<lparr>sec = 5, nsec = 200000000\<rparr>, stamp_now = \<lparr>sec = 5, nsec = 200000000\<rparr>\<rparr>]))))))) = Fin 0"
proof -
  let ?turns = "[\<lparr>queued = [(\<lparr>sec = 5, nsec = 0\<rparr>, \<lparr>encoder_ticks = 310, duration = 1000000\<rparr>)],
        check_now = \<lparr>sec = 5, nsec = 200000000\<rparr>, stamp_now = \<lparr>sec = 5, nsec = 200000000\<rparr>\<rparr>]"
  have m: "hd (pose_publisher (snd (main ros_toSec no_params ?turns)))
      \<in> set (pose_publisher (snd (main ros_toSec no_params ?turns)))"
    by (rule published_something) (simp add: delivered_def)
  with only_linear_x_varies [of ros_toSec no_params ?turns] show ?thesis
    by blast
qed

section \<open>Sequence numbers\<close>

lemma seq_encoder_callback:
  "seq (header (twist (encoder_callback toSec now ev s))) = seq (header (twist s)) + 1"
  by (simp add: encoder_callback_def Let_def set_linear_x_def inc_seq_def set_stamp_def)

lemma seq_watchdog:
  "watchdog toSec now now' s = s \<or>
   pose_publisher (watchdog toSec now now' s) =
     pose_publisher s @ [twist (watchdog toSec now now' s)] \<and>
   seq (header (twist (watchdog toSec now now' s))) = seq (header (twist s)) + 1"
  by (simp add: watchdog_def Let_def set_linear_x_def inc_seq_def set_stamp_def)

lemma numbered_snoc:
  assumes "seq (header (twist s)) = of_nat (length (pose_publisher s))"
    and "\<forall>k < length (pose_publisher s). seq (header (pose_publisher s ! k)) = of_nat (Suc k)"
    and "pose_publisher s' = pose_publisher s @ [twist s']"
    and "seq (header (twist s')) = seq (header (twist s)) + 1"
  shows "seq (header (twist s')) = of_nat (length (pose_publisher s')) \<and>
         (\<forall>k < length (pose_publisher s'). seq (header (pose_publisher s' ! k)) = of_nat (Suc k))"
  using assms by (auto simp: nth_append less_Suc_eq)

lemma seq_published:
  "seq (header (twist (main_loop toSec turns (main_init ps)))) =
     of_nat (length (pose_publisher (main_loop toSec turns (main_init ps)))) \<and>
   (\<forall>k < length (pose_publisher (main_loop toSec turns (main_init ps))).
      seq (header (pose_publisher (main_loop toSec turns (main_init ps)) ! k)) = of_nat (Suc k))"
proof (rule main_loop_invariant [where P = "\<lambda>s.
    seq (header (twist s)) = of_nat (length (pose_publisher s)) \<and>
    (\<forall>k < length (pose_publisher s). seq (header (pose_publisher s ! k)) = of_nat (Suc k))"])
  show "seq (header (twist (main_init ps))) = of_nat (length (pose_publisher (main_init ps))) \<and>
    (\<forall>k < length (pose_publisher (main_init ps)).
       seq (header (pose_publisher (main_init ps) ! k)) = of_nat (Suc k))"
    by (simp add: start_main_init)
next
  fix now ev and s :: node
  assume "seq (header (twist s)) = of_nat (length (pose_publisher s)) \<and>
    (\<forall>k < length (pose_publisher s). seq (header (pose_publisher s ! k)) = of_nat (Suc k))"
  then show "seq (header (twist (encoder_callback toSec now ev s))) =
      of_nat (length (pose_publisher (encoder_callback toSec now ev s))) \<and>
    (\<forall>k < length (pose_publisher (encoder_callback toSec now ev s)).
       seq (header (pose_publisher (encoder_callback toSec now ev s) ! k)) = of_nat (Suc k))"
    by (intro numbered_snoc [of s])
      (simp_all add: pose_publisher_encoder_callback seq_encoder_callback)
next
  fix now now' and s :: node
  assume inv: "seq (header (twist s)) = of_nat (length (pose_publisher s)) \<and>
    (\<forall>k < length (pose_publisher s). seq (header (pose_publisher s ! k)) = of_nat (Suc k))"
  from seq_watchdog [of toSec now now' s]
  show "seq (header (twist (watchdog toSec now now' s))) =
      of_nat (length (pose_publisher (watchdog toSec now now' s))) \<and>
    (\<forall>k < length (pose_publisher (watchdog toSec now now' s)).
       seq (header (pose_publisher (watchdog toSec now now' s) ! k)) = of_nat (Suc k))"
  proof
    assume "watchdog toSec now now' s = s"
    with inv show ?thesis by simp
  next
    assume "pose_publisher (watchdog toSec now now' s) =
        pose_publisher s @ [twist (watchdog toSec now now' s)] \<and>
      seq (header (twist (watchdog toSec now now' s))) = seq (header (twist s)) + 1"
    with inv show ?thesis
      by (intro numbered_snoc [of s]) simp_all
  qed
qed

lemma unat_of_nat_32: "n < 4294967296 \<Longrightarrow> unat (of_nat n :: 32 word) = n"
  by (simp add: unat_of_nat)

text \<open>
  Claim C6, amended. The estimates published in a run, whether by the callback or by the
  deadline check, are numbered 1, 2, 3, ... in a 32-bit counter: each carries the sequence
  number of its predecessor plus one, modulo \<open>2 ^ 32\<close>. As long as fewer than \<open>2 ^ 32\<close>
  estimates have been published, the sequence numbers are strictly increasing.
\<close>

theorem sequence_numbers:
  "(\<forall>k < length (pose_publisher (snd (main toSec ps turns))).
      seq (header (pose_publisher (snd (main toSec ps turns)) ! k)) = of_nat (Suc k)) \<and>
   (\<forall>k. Suc k < length (pose_publisher (snd (main toSec ps turns))) \<longrightarrow>
      seq (header (pose_publisher (snd (main toSec ps turns)) ! Suc k)) =
        seq (header (pose_publisher (snd (main toSec ps turns)) ! k)) + 1) \<and>
   (length (pose_publisher (snd (main toSec ps turns))) < 4294967296 \<longrightarrow>
      (\<forall>i j. i < j \<and> j < length (pose_publisher (snd (main toSec ps turns))) \<longrightarrow>
         unat (seq (header (pose_publisher (snd (main toSec ps turns)) ! i))) <
         unat (seq (header (pose_publisher (snd (main toSec ps turns)) ! j)))))"
proof -
  let ?P = "pose_publisher (snd (main toSec ps turns))"
  have nth: "seq (header (?P ! k)) = of_nat (Suc k)" if "k < length ?P" for k
    using seq_published [of toSec turns ps] that by (simp add: main_def)
  have succ: "seq (header (?P ! Suc k)) = seq (header (?P ! k)) + 1" if "Suc k < length ?P" for k
    using that by (simp add: nth)
  have incr: "unat (seq (header (?P ! i))) < unat (seq (header (?P ! j)))"
    if "length ?P < 4294967296" "i < j" "j < length ?P" for i j
    using that by (simp add: nth unat_of_nat_32 del: of_nat_Suc)
  show ?thesis
    using nth succ incr by blast
qed

lemma length_delivered_replicate: "length (delivered (replicate n t)) = n * length (queued t)"
  by (induction n) (simp_all add: delivered_def)

text \<open>
  In a run of 4294967296 turns with one event each, the estimate at index 4294967295 has
  the sequence number 0, below the 4294967295 of the estimate before it.
\<close>

theorem sequence_numbers_counterexample:
  "unat (seq (header (pose_publisher (snd (main ros_toSec no_params (replicate 4294967296
      \<lparr>queued = [(\<lparr>sec = 5, nsec = 0\<rparr>, \<lparr>encoder_ticks = 1, duration = 1000\<rparr>)],
        check_now = \<lparr>sec = 5, nsec = 0\<rparr>, stamp_now = \<lparr>sec = 5, nsec = 0\<rparr>\<rparr>))) ! 4294967295))) <
   unat (seq (header (pose_publisher (snd (main ros_toSec no_params (replicate 4294967296
      \<lparr>queued = [(\<lparr>sec = 5, nsec = 0\<rparr>, \<lparr>encoder_ticks = 1, duration = 1000\<rparr>)],
        check_now = \<lparr>sec = 5, nsec = 0\<rparr>, stamp_now = \<lparr>sec = 5, nsec = 0\<rparr>\<rparr>))) ! 4294967294)))"
proof -
  define turns where "turns = replicate 4294967296
      \<lparr>queued = [(\<lparr>sec = 5, nsec = 0\<rparr>, \<lparr>encoder_ticks = 1, duration = 1000\<rparr>)],
        check_now = \<lparr>sec = 5, nsec = 0\<rparr>, stamp_now = \<lparr>sec = 5, nsec = 0\<rparr>\<rparr>"
  define P where "P = pose_publisher (main_loop ros_toSec turns (main_init no_params))"
  have "length (delivered turns) = 4294967296"
    unfolding turns_def by (simp only: length_delivered_replicate) simp
  with length_pose_publisher_main_loop [of "main_init no_params" turns ros_toSec]
  have len: "4294967296 \<le> length P"
    by (simp add: P_def start_main_init)
  have a: "seq (header (P ! 4294967295)) = of_nat (Suc 4294967295)"
    using seq_published [of ros_toSec turns no_params] len unfolding P_def by simp
  have b: "seq (header (P ! 4294967294)) = of_nat (Suc 4294967294)"
    using seq_published [of ros_toSec turns no_params] len unfolding P_def by simp
  have "unat (seq (header (P ! 4294967295))) < unat (seq (header (P ! 4294967294)))"
    unfolding a b by simp
  then show ?thesis
    unfolding P_def turns_def main_def by (simp only: snd_conv)
qed

theorem sequence_numbers_witness:
  "Suc 0 < length (pose_publisher (snd (main ros_toSec no_params
      [\<lparr>queued = [(\<lparr>sec = 5, nsec = 0\<rparr>, \<lparr>encoder_ticks = 310, duration = 1000000\<rparr>)],
        check_now = \<lparr>sec = 5, nsec = 200000000\<rparr>, stamp_now = \<lparr>sec = 5, nsec = 200000001\<rparr>\<rparr>]))) \<and>
   length (pose_publisher (snd (main ros_toSec no_params
      [\<lparr>queued = [(\<lparr>sec = 5, nsec = 0\<rparr>, \<lparr>encoder_ticks = 310, duration = 1000000\<rparr>)],
        check_now = \<lparr>sec = 5, nsec = 200000000\<rparr>, stamp_now = \<lparr>sec = 5, nsec = 200000001\<rparr>\<rparr>]))) < 4294967296 \<and>
   (0::nat) < Suc 0 \<and>
   seq (header (pose_publisher (snd (main ros_toSec no_params
      [\<lparr>queued = [(\<lparr>sec = 5, nsec = 0\<rparr>, \<lparr>encoder_ticks = 310, duration = 1000000\<rparr>)],
        check_now = \<lparr>sec = 5, nsec = 200000000\<rparr>, stamp_now = \<lparr>sec = 5, nsec = 200000001\<rparr>\<rparr>])) ! 0)) = 1 \<and>
   seq (header (pose_publisher (snd (main ros_toSec no_params
      [\<lparr>queued = [(\<lparr>sec = 5, nsec = 0\<rparr>, \<lparr>encoder_ticks = 310, duration = 1000000\<rparr>)],
        check_now = \<lparr>sec = 5, nsec = 200000000\<rparr>, stamp_now = \<lparr>sec = 5, nsec = 200000001\<rparr>\<rparr>])) ! Suc 0)) = 2 \<and>
   unat (seq (header (pose_publisher (snd (main ros_toSec no_params
      [\<lparr>queued = [(\<lparr>sec = 5, nsec = 0\<rparr>, \<lparr>encoder_ticks = 310, duration = 1000000\<rparr>)],
        check_now = \<lparr>sec = 5, nsec = 200000000\<rparr>, stamp_now = \<lparr>sec = 5, nsec = 200000001\<rparr>\<rparr>])) ! 0))) < unat (seq (header (pose_publisher (snd (main ros_toSec no_params
      [\<lparr>queued = [(\<lparr>sec = 5, nsec = 0\<rparr>, \<lparr>encoder_ticks = 310, duration = 1000000\<rparr>)],
        check_now = \<lparr>sec = 5, nsec = 200000000\<rparr>, stamp_now = \<lparr>sec = 5, nsec = 200000001\<rparr>\<rparr>])) ! Suc 0)))"
proof -
  let ?t = "\<lparr>queued = [(\<lparr>sec = 5, nsec = 0\<rparr>, \<lparr>encoder_ticks = 310, duration = 1000000\<rparr>)],
        check_now = \<lparr>sec = 5, nsec = 200000000\<rparr>, stamp_now = \<lparr>sec = 5, nsec = 200000001\<rparr>\<rparr>"
  let ?s = "encoder_callback ros_toSec \<lparr>sec = 5, nsec = 0\<rparr>
      \<lparr>encoder_ticks = 310, duration = 1000000\<rparr> (main_init no_params)"
  let ?P = "pose_publisher (snd (main ros_toSec no_params [?t]))"
  have deadline: "deadline_timeout ?s = Fin (3602879701896397 / 2 ^ 55)"
    by (simp add: config_encoder_callback config_main_init no_params_def param_def dbl_eval)
  have last: "last_publish_time ?s = Fin 5"
    by (simp add: encoder_callback_def Let_def set_stamp_def inc_seq_def ros_toSec_def dbl_eval)
  have t0: "ros_toSec \<lparr>sec = 5, nsec = 200000000\<rparr> = Fin (5854679515581645 / 2 ^ 50)"
    by (simp add: ros_toSec_def dbl_eval)
  have fire: "dgt (dsub (ros_toSec \<lparr>sec = 5, nsec = 200000000\<rparr>) (last_publish_time ?s))
      (deadline_timeout ?s)"
    unfolding deadline last t0 by (simp add: dbl_eval)
  have run: "snd (main ros_toSec no_params [?t]) =
      watchdog ros_toSec \<lparr>sec = 5, nsec = 200000000\<rparr> \<lparr>sec = 5, nsec = 200000001\<rparr> ?s"
    by (simp add: main_def main_loop_def loop_body_def spinOnce_def)
  have "length (pose_publisher (watchdog ros_toSec \<lparr>sec = 5, nsec = 200000000\<rparr>
      \<lparr>sec = 5, nsec = 200000001\<rparr> ?s)) = Suc (length (pose_publisher ?s))"
    using fire by (simp add: watchdog_def Let_def)
  then have len: "length ?P = 2"
    by (simp only: run pose_publisher_encoder_callback start_main_init) simp
  note inst = sequence_numbers [of ros_toSec no_params "[?t]"]
  from inst have nth: "\<forall>k < length ?P. seq (header (?P ! k)) = of_nat (Suc k)"
    by (rule conjunct1)
  from inst have incr: "length ?P < 4294967296 \<longrightarrow>
      (\<forall>i j. i < j \<and> j < length ?P \<longrightarrow>
         unat (seq (header (?P ! i))) < unat (seq (header (?P ! j))))"
    by (rule conjunct2 [THEN conjunct2])
  have a: "seq (header (?P ! 0)) = 1"
    using nth [rule_format, of 0] len by simp
  have b: "seq (header (?P ! Suc 0)) = 2"
    using nth [rule_format, of "Suc 0"] len by simp
  have c: "unat (seq (header (?P ! 0))) < unat (seq (header (?P ! Suc 0)))"
    using incr [rule_format, of 0 "Suc 0"] len by simp
  show ?thesis
    using a b c len by simp
qed

end
